theory Spec2Isabelle
  imports Main "HOL-Library.Sublist" "HOL-Library.Char_ord" "HOL-Library.List_Lexorder"
begin

section \<open>JavaScript strings and objects\<close>

text \<open>
  Strings are lists of 8-bit code units: the code units of a JavaScript string that
  are below \<open>0x100\<close>. The helpers below follow the ECMAScript
  library functions the detectors call: \<open>trim\<close>, \<open>trimLeft\<close>, \<open>toLowerCase\<close>,
  \<open>indexOf\<close>, \<open>lastIndexOf\<close>, \<open>substring\<close>, \<open>startsWith\<close>, \<open>endsWith\<close>.
  An index result of \<open>-1\<close> is \<open>None\<close>.
\<close>

definition isWhiteSpace :: "char \<Rightarrow> bool" where
  "isWhiteSpace c =
     (c \<in> set [CHR 0x09, CHR 0x0A, CHR 0x0B, CHR 0x0C, CHR 0x0D, CHR 0x20, CHR 0xA0])"

definition trimLeft :: "string \<Rightarrow> string" where
  "trimLeft s = dropWhile isWhiteSpace s"

definition trimRight :: "string \<Rightarrow> string" where
  "trimRight s = rev (dropWhile isWhiteSpace (rev s))"

definition trim :: "string \<Rightarrow> string" where
  "trim s = trimLeft (trimRight s)"

text \<open>
  Lower-casing of a code unit: the letters A to Z and the capital letters of Latin-1,
  \<open>0xC0\<close> to \<open>0xDE\<close> without the multiplication sign \<open>0xD7\<close>, go to the code unit
  \<open>0x20\<close> above; every other code unit below \<open>0x100\<close> is kept.
\<close>

definition upperLetters :: string where
  "upperLetters =
     ''ABCDEFGHIJKLMNOPQRSTUVWXYZ'' @
     [CHR 0xC0, CHR 0xC1, CHR 0xC2, CHR 0xC3, CHR 0xC4, CHR 0xC5, CHR 0xC6, CHR 0xC7,
      CHR 0xC8, CHR 0xC9, CHR 0xCA, CHR 0xCB, CHR 0xCC, CHR 0xCD, CHR 0xCE, CHR 0xCF,
      CHR 0xD0, CHR 0xD1, CHR 0xD2, CHR 0xD3, CHR 0xD4, CHR 0xD5, CHR 0xD6, CHR 0xD8,
      CHR 0xD9, CHR 0xDA, CHR 0xDB, CHR 0xDC, CHR 0xDD, CHR 0xDE]"

definition lowerLetters :: string where
  "lowerLetters =
     ''abcdefghijklmnopqrstuvwxyz'' @
     [CHR 0xE0, CHR 0xE1, CHR 0xE2, CHR 0xE3, CHR 0xE4, CHR 0xE5, CHR 0xE6, CHR 0xE7,
      CHR 0xE8, CHR 0xE9, CHR 0xEA, CHR 0xEB, CHR 0xEC, CHR 0xED, CHR 0xEE, CHR 0xEF,
      CHR 0xF0, CHR 0xF1, CHR 0xF2, CHR 0xF3, CHR 0xF4, CHR 0xF5, CHR 0xF6, CHR 0xF8,
      CHR 0xF9, CHR 0xFA, CHR 0xFB, CHR 0xFC, CHR 0xFD, CHR 0xFE]"

definition lowerChar :: "char \<Rightarrow> char" where
  "lowerChar c = (case map_of (zip upperLetters lowerLetters) c of None \<Rightarrow> c | Some d \<Rightarrow> d)"

definition toLowerCase :: "string \<Rightarrow> string" where
  "toLowerCase s = map lowerChar s"

definition startsWith :: "string \<Rightarrow> string \<Rightarrow> bool" where
  "startsWith s p = (take (length p) s = p)"

definition endsWith :: "string \<Rightarrow> string \<Rightarrow> bool" where
  "endsWith s p = (length p \<le> length s \<and> drop (length s - length p) s = p)"

text \<open>\<open>findSub p s k\<close>: the first position of \<open>p\<close> in \<open>s\<close>, counted from \<open>k\<close>.\<close>

fun findSub :: "string \<Rightarrow> string \<Rightarrow> nat \<Rightarrow> nat option" where
  "findSub p [] k = (if p = [] then Some k else None)"
| "findSub p (c # cs) k =
     (if take (length p) (c # cs) = p then Some k else findSub p cs (Suc k))"

text \<open>\<open>s.indexOf(p, i)\<close>: the start position is clamped to the length of \<open>s\<close>.\<close>

definition indexOf :: "string \<Rightarrow> string \<Rightarrow> nat \<Rightarrow> nat option" where
  "indexOf s p i = findSub p (drop i s) (min i (length s))"

text \<open>\<open>s.lastIndexOf(c)\<close> for a one-character pattern.\<close>

definition lastIndexOfChar :: "string \<Rightarrow> char \<Rightarrow> nat option" where
  "lastIndexOfChar s c =
     (let r = dropWhile (\<lambda>x. x \<noteq> c) (rev s)
      in if r = [] then None else Some (length r - 1))"

text \<open>\<open>s.substring(a, b)\<close>: both ends are clamped and swapped when out of order.\<close>

definition substring :: "string \<Rightarrow> nat \<Rightarrow> nat \<Rightarrow> string" where
  "substring s a b =
     (let a' = min a (length s); b' = min b (length s);
          lo = min a' b'; hi = max a' b'
      in take (hi - lo) (drop lo s))"

definition substringFrom :: "string \<Rightarrow> nat \<Rightarrow> string" where
  "substringFrom s a = drop a s"

text \<open>
  \<open>objUpdate\<close> stores a value under a key of an object or of a \<open>Map\<close>: both keep
  their keys in insertion order, and a key that is already there keeps its place.
  A \<open>StringMap\<close> is a plain object used as a dictionary. Its own keys are kept in
  insertion order; assigning to an existing key keeps the key's place. Assigning a
  string to the key \<open>__proto__\<close> creates no property. \<open>Object.keys\<close> lists the keys
  that are array indices first, in ascending numeric order, then the other keys in
  insertion order.
\<close>

type_synonym StringMap = "(string \<times> string) list"

fun objUpdate :: "('k \<times> 'v) list \<Rightarrow> 'k \<Rightarrow> 'v \<Rightarrow> ('k \<times> 'v) list" where
  "objUpdate [] k v = [(k, v)]"
| "objUpdate ((k', v') # m) k v =
     (if k' = k then (k, v) # m else (k', v') # objUpdate m k v)"

definition objSet :: "StringMap \<Rightarrow> string \<Rightarrow> string \<Rightarrow> StringMap" where
  "objSet m k v = (if k = ''__proto__'' then m else objUpdate m k v)"

definition digitVal :: "char \<Rightarrow> int option" where
  "digitVal c = map_of (zip ''0123456789'' [0, 1, 2, 3, 4, 5, 6, 7, 8, 9]) c"

definition decimalValue :: "string \<Rightarrow> int" where
  "decimalValue s = foldl (\<lambda>n c. 10 * n + (case digitVal c of None \<Rightarrow> 0 | Some d \<Rightarrow> d)) 0 s"

definition isArrayIndex :: "string \<Rightarrow> bool" where
  "isArrayIndex s =
     (s \<noteq> [] \<and> list_all (\<lambda>c. digitVal c \<noteq> None) s \<and>
      (s = ''0'' \<or> hd s \<noteq> CHR ''0'') \<and> decimalValue s < 4294967295)"

definition objectKeys :: "StringMap \<Rightarrow> string list" where
  "objectKeys m =
     sort_key decimalValue (filter isArrayIndex (map fst m)) @
     filter (\<lambda>k. \<not> isArrayIndex k) (map fst m)"

definition objGet :: "StringMap \<Rightarrow> string \<Rightarrow> string option" where
  "objGet m k = map_of m k"

section \<open>Node path functions\<close>

text \<open>
  \<open>path.basename\<close>, \<open>path.dirname\<close> and \<open>path.extname\<close> in their POSIX flavour, on
  paths separated by \<open>/\<close>.
\<close>

definition isSlash :: "char \<Rightarrow> bool" where
  "isSlash c = (c = CHR ''/'')"

definition basename :: "string \<Rightarrow> string" where
  "basename p = rev (takeWhile (\<lambda>c. \<not> isSlash c) (dropWhile isSlash (rev p)))"

definition dirname :: "string \<Rightarrow> string" where
  "dirname p =
     (if p = [] then ''.''
      else
        let hasRoot = isSlash (hd p);
            r = dropWhile (\<lambda>c. \<not> isSlash c) (dropWhile isSlash (rev (tl p)))
        in if r = [] then (if hasRoot then ''/'' else ''.'')
           else if hasRoot \<and> length r = 1 then ''//''
           else take (length r) p)"

definition extname :: "string \<Rightarrow> string" where
  "extname p =
     (let b = basename p
      in case lastIndexOfChar b (CHR ''.'') of
           None \<Rightarrow> []
         | Some i \<Rightarrow> if i = 0 \<or> b = ''..'' then [] else drop i b)"

section \<open>Tasks and the host\<close>

record Uri =
  uri_path :: string
  fsPath :: string

record WorkspaceFolder =
  wf_name :: string
  wf_uri :: Uri

text \<open>
  A task's scope is a workspace folder, one of the numbers \<open>TaskScope.Global\<close> and
  \<open>TaskScope.Workspace\<close>, or undefined.
\<close>

datatype TaskScope =
  ScopeFolder WorkspaceFolder
| ScopeGlobal
| ScopeWorkspace
| ScopeUndefined

text \<open>
  The fields of the task definitions of the detectors (\<open>AntTaskDefinition\<close>,
  \<open>GradleTaskDefinition\<close>, \<open>ScriptTaskDefinition\<close>); a field a detector does not
  set is \<open>None\<close>, or \<open>False\<close> for the two flags.
\<close>

record TaskDefinition =
  def_type :: string
  def_script :: "string option"
  def_path :: "string option"
  def_fileName :: "string option"
  def_uri :: "Uri option"
  def_scriptType :: "string option"
  def_cmdLine :: "string option"
  def_scriptFile :: bool
  def_requiresArgs :: bool

record ShellExecution =
  se_command :: string
  se_args :: "string list"
  se_cwd :: string
  se_executable :: "string option"

record Task =
  task_definition :: TaskDefinition
  task_scope :: TaskScope
  task_name :: string
  task_source :: string
  task_execution :: ShellExecution
  task_isBuild :: bool

datatype error = IOError | TypeError

text \<open>The result of xml2js' \<open>parseString\<close>, as far as the Ant detector reads it.\<close>

type_synonym Attrs = "(string \<times> string) list"

record XmlTarget =
  tgt_attrs :: "Attrs option"

record XmlProject =
  prj_attrs :: "Attrs option"
  prj_target :: "XmlTarget list option"

datatype XmlJson = JsonNull | JsonRoot "XmlProject option"

datatype XmlResult = XmlThrows | XmlErr | XmlOk XmlJson

datatype IncludeSetting = IncUnset | IncArray "string list" | IncString string

text \<open>
  Everything the detectors and the tree builder take from outside: the platform, the
  file system, the workspace, the settings, and the library functions whose code is
  not part of the repository (\<open>parseString\<close> of xml2js, \<open>path.join\<close>, the glob search
  \<open>workspace.findFiles\<close>, \<open>util.isExcluded\<close>).
\<close>

record Host =
  win32 :: bool
  files :: "string \<Rightarrow> string option"
  dirs :: "string \<Rightarrow> bool"
  workspaceFolders :: "WorkspaceFolder list option"
  findFiles :: "WorkspaceFolder \<Rightarrow> string \<Rightarrow> Uri list"
  getWorkspaceFolder :: "Uri \<Rightarrow> WorkspaceFolder option"
  isExcluded :: "string \<Rightarrow> bool"
  parseString :: "string \<Rightarrow> XmlResult"
  pathJoin :: "string \<Rightarrow> string \<Rightarrow> string"
  configString :: "string \<Rightarrow> string"
  configFlag :: "string \<Rightarrow> bool"
  exclude :: "string list"
  includeAnt :: IncludeSetting
  enableFlag :: "string \<Rightarrow> bool"

text \<open>
  Modelled from the spec: \<open>util.readFile\<close> and \<open>util.readFileSync\<close> return the
  text of a file and fail with an I/O error when the file is absent or unreadable;
  \<open>util.pathExists\<close> tells whether a path is on disk; \<open>util.existsInArray\<close> is
  membership; \<open>util.removeFromArray\<close> removes the given element from the array.
\<close>

definition readFile :: "Host \<Rightarrow> string \<Rightarrow> error + string" where
  "readFile h p = (case files h p of None \<Rightarrow> Inl IOError | Some c \<Rightarrow> Inr c)"

definition pathExists :: "Host \<Rightarrow> string \<Rightarrow> bool" where
  "pathExists h p = (files h p \<noteq> None \<or> dirs h p)"

definition existsInArray :: "string list \<Rightarrow> string \<Rightarrow> bool" where
  "existsInArray arr item = (item \<in> set arr)"

definition removeFromArray :: "'a list \<Rightarrow> 'a \<Rightarrow> 'a list" where
  "removeFromArray arr item = remove1 item arr"

section \<open>Ant detector\<close>

text \<open>
  \<open>findAllAntScripts\<close>: the map from display name to target name. A parse failure,
  a missing project root and a project without targets give the empty map; reading
  the \<open>default\<close> attribute of a project element without attributes is a type error.
\<close>

fun antTargets :: "string option \<Rightarrow> XmlTarget list \<Rightarrow> StringMap \<Rightarrow> StringMap" where
  "antTargets defaultTask [] scripts = scripts"
| "antTargets defaultTask (tgt # targets) scripts =
     antTargets defaultTask targets
       (case tgt_attrs tgt of
          None \<Rightarrow> scripts
        | Some a \<Rightarrow>
            (case map_of a ''name'' of
               None \<Rightarrow> scripts
             | Some n \<Rightarrow>
                 if n = [] then scripts
                 else objSet scripts (if defaultTask = Some n then n @ '' - Default'' else n) n))"

definition findAllAntScripts :: "Host \<Rightarrow> string \<Rightarrow> error + StringMap" where
  "findAllAntScripts h buffer =
     (case parseString h buffer of
        XmlThrows \<Rightarrow> Inr []
      | XmlErr \<Rightarrow> Inr []
      | XmlOk JsonNull \<Rightarrow> Inr []
      | XmlOk (JsonRoot None) \<Rightarrow> Inr []
      | XmlOk (JsonRoot (Some project)) \<Rightarrow>
          (case prj_target project of
             None \<Rightarrow> Inr []
           | Some targets \<Rightarrow>
               (case prj_attrs project of
                  None \<Rightarrow> Inl TypeError
                | Some a \<Rightarrow> Inr (antTargets (map_of a ''default'') targets []))))"

definition getRelativePath :: "WorkspaceFolder \<Rightarrow> Uri \<Rightarrow> string" where
  "getRelativePath folder uri =
     (let absolutePath =
            substring (uri_path uri) 0
              (case lastIndexOfChar (uri_path uri) (CHR ''/'') of None \<Rightarrow> 0 | Some i \<Rightarrow> i + 1)
      in substringFrom absolutePath (length (uri_path (wf_uri folder)) + 1))"

definition antCommand :: "Host \<Rightarrow> string" where
  "antCommand h =
     (let ant = (if win32 h then ''ant.bat'' else ''ant'')
      in if configString h ''pathToAnt'' \<noteq> []
         then (let ant' = configString h ''pathToAnt''
               in if win32 h \<and> endsWith ant' [CHR 0x5C, CHR ''a'', CHR ''n'', CHR ''t'']
                  then ant' @ ''.bat'' else ant')
         else ant)"

definition ansiconExecutable :: "Host \<Rightarrow> string" where
  "ansiconExecutable h =
     (let ansiPath = configString h ''pathToAnsicon''
      in if ansiPath \<noteq> [] \<and> pathExists h ansiPath
         then (if \<not> endsWith ansiPath ''ansicon.exe'' \<and> \<not> endsWith ansiPath [CHR 0x5C]
               then pathJoin h ansiPath ''ansicon.exe''
               else if \<not> endsWith ansiPath ''ansicon.exe'' then ansiPath @ ''ansicon.exe''
               else ansiPath)
         else ''ansicon.exe'')"

definition createAntTask :: "Host \<Rightarrow> string \<Rightarrow> string \<Rightarrow> WorkspaceFolder \<Rightarrow> Uri \<Rightarrow> Task" where
  "createAntTask h target cmdName folder uri =
     (let antFile = basename (uri_path uri);
          relativePath = getRelativePath folder uri;
          kind = \<lparr> def_type = ''ant'', def_script = Some target,
                   def_path = Some (if relativePath \<noteq> [] then relativePath else []),
                   def_fileName = Some antFile, def_uri = Some uri,
                   def_scriptType = None, def_cmdLine = None,
                   def_scriptFile = False, def_requiresArgs = False \<rparr>;
          cwd = dirname (fsPath uri);
          colour = (win32 h \<and> configFlag h ''enableAnsiconForAnt'');
          args = (if colour
                  then [''-logger'', ''org.apache.tools.ant.listener.AnsiColorLogger'', target]
                  else [target]);
          executable = (if colour then Some (ansiconExecutable h) else None);
          args' = (if toLowerCase antFile \<noteq> ''build.xml'' then args @ [''-f'', antFile] else args)
      in \<lparr> task_definition = kind, task_scope = ScopeFolder folder,
           task_name = (if cmdName \<noteq> [] then cmdName else target),
           task_source = ''ant'',
           task_execution = \<lparr> se_command = antCommand h, se_args = args', se_cwd = cwd,
                               se_executable = executable \<rparr>,
           task_isBuild = False \<rparr>)"

definition readAntfile :: "Host \<Rightarrow> Uri \<Rightarrow> error + Task list" where
  "readAntfile h uri =
     (case getWorkspaceFolder h uri of
        None \<Rightarrow> Inr []
      | Some folder \<Rightarrow>
          (case readFile h (fsPath uri) of
             Inl e \<Rightarrow> Inl e
           | Inr contents \<Rightarrow>
               (case findAllAntScripts h contents of
                  Inl e \<Rightarrow> Inl e
                | Inr scripts \<Rightarrow>
                    Inr (map (\<lambda>each.
                           (createAntTask h
                              (case objGet scripts each of
                                 None \<Rightarrow> each
                               | Some v \<Rightarrow> if v \<noteq> [] then v else each)
                              each folder uri) \<lparr> task_isBuild := True \<rparr>)
                         (objectKeys scripts)))))"

section \<open>Gradle detector\<close>

lemma findSub_bounds:
  "findSub p s k = Some r \<Longrightarrow> p \<noteq> [] \<Longrightarrow> k \<le> r \<and> r < k + length s"
  by (induction p s k rule: findSub.induct) (fastforce split: if_splits)+

lemma indexOf_bounds:
  assumes "indexOf s p i = Some r" and "p \<noteq> []"
  shows "i \<le> r \<and> r < length s"
proof (cases "i < length s")
  case True
  with findSub_bounds[of p "drop i s" "min i (length s)" r] assms show ?thesis
    by (simp add: indexOf_def min_def)
next
  case False
  with assms show ?thesis by (simp add: indexOf_def)
qed

text \<open>
  The body of the scanning loop of \<open>findTargets\<close> for one line: \<open>raw\<close> is the text
  between \<open>idx\<close> and \<open>eol\<close>.
\<close>

definition gradleLine :: "string \<Rightarrow> StringMap \<Rightarrow> StringMap" where
  "gradleLine raw scripts =
     (let line = trim raw
      in if line \<noteq> [] \<and> startsWith (trimLeft (toLowerCase line)) ''task ''
         then (case indexOf (trimLeft line) '' '' 0 of
                 None \<Rightarrow> scripts
               | Some i \<Rightarrow>
                   let idx1 = i + 1;
                       idx2 = (case indexOf line ''('' idx1 of
                                 None \<Rightarrow> indexOf line ''{'' idx1
                               | Some k \<Rightarrow> Some k)
                   in (case idx2 of
                         None \<Rightarrow> scripts
                       | Some i2 \<Rightarrow>
                           let tgtName = trim (substring line idx1 i2)
                           in if tgtName \<noteq> [] then objSet scripts tgtName [] else scripts))
         else scripts)"

text \<open>
  The loop of \<open>findTargets\<close>: \<open>eol\<close> is the next newline at or after \<open>idx\<close>; the
  loop ends when there is none.
\<close>

function findTargetsLoop :: "string \<Rightarrow> nat \<Rightarrow> StringMap \<Rightarrow> StringMap" where
  "findTargetsLoop contents idx scripts =
     (case indexOf contents [CHR 0x0A] idx of
        None \<Rightarrow> scripts
      | Some eol \<Rightarrow>
          findTargetsLoop contents (eol + 1) (gradleLine (substring contents idx eol) scripts))"
  by pat_completeness auto
termination
proof (relation "measure (\<lambda>(contents, idx, scripts). length contents - idx)")
  show "wf (measure (\<lambda>(contents, idx, scripts). length contents - idx))" by simp
next
  fix contents :: string and idx :: nat and scripts :: StringMap and eol :: nat
  assume "indexOf contents [CHR 0x0A] idx = Some eol"
  then have "idx \<le> eol \<and> eol < length contents"
    by (rule indexOf_bounds) simp
  then have "length contents - (eol + 1) < length contents - idx"
    by arith
  then show "((contents, eol + 1, gradleLine (substring contents idx eol) scripts),
              (contents, idx, scripts))
             \<in> measure (\<lambda>(contents, idx, scripts). length contents - idx)"
    by simp
qed

definition findTargets :: "Host \<Rightarrow> string \<Rightarrow> error + StringMap" where
  "findTargets h p =
     (case readFile h p of
        Inl e \<Rightarrow> Inl e
      | Inr contents \<Rightarrow> Inr (findTargetsLoop contents 0 []))"

definition gradleCommand :: "Host \<Rightarrow> string" where
  "gradleCommand h =
     (let gradle = (if win32 h then ''gradle.bat'' else ''gradle'')
      in if configString h ''pathToGradle'' \<noteq> [] then configString h ''pathToGradle''
         else gradle)"

definition createGradleTask :: "Host \<Rightarrow> string \<Rightarrow> string \<Rightarrow> WorkspaceFolder \<Rightarrow> Uri \<Rightarrow> Task" where
  "createGradleTask h target cmd folder uri =
     (let relativePath = getRelativePath folder uri;
          kind = \<lparr> def_type = ''gradle'', def_script = Some target,
                   def_path = Some (if relativePath \<noteq> [] then relativePath else []),
                   def_fileName = Some (basename (uri_path uri)), def_uri = Some uri,
                   def_scriptType = None, def_cmdLine = None,
                   def_scriptFile = False, def_requiresArgs = False \<rparr>;
          cwd = dirname (fsPath uri);
          args = [target]
      in \<lparr> task_definition = kind, task_scope = ScopeFolder folder,
           task_name = target, task_source = ''gradle'',
           task_execution = \<lparr> se_command = gradleCommand h, se_args = args, se_cwd = cwd,
                               se_executable = None \<rparr>,
           task_isBuild = False \<rparr>)"

definition readGradlefile :: "Host \<Rightarrow> Uri \<Rightarrow> error + Task list" where
  "readGradlefile h uri =
     (case getWorkspaceFolder h uri of
        None \<Rightarrow> Inr []
      | Some folder \<Rightarrow>
          (case findTargets h (fsPath uri) of
             Inl e \<Rightarrow> Inl e
           | Inr scripts \<Rightarrow>
               Inr (map (\<lambda>each. (createGradleTask h each each folder uri)
                                   \<lparr> task_isBuild := True \<rparr>)
                        (objectKeys scripts))))"

section \<open>Script detector\<close>

record ScriptDef =
  sd_exec :: string
  sd_type :: string
  sd_args :: "string list"
  sd_enabled :: bool

text \<open>
  \<open>scriptTable[ext]\<close>: the entry of a file extension. An extension outside the table
  has no usable entry, \<open>None\<close>.
\<close>

definition configuredPath :: "Host \<Rightarrow> string \<Rightarrow> string \<Rightarrow> string" where
  "configuredPath h key fallback = (if configString h key \<noteq> [] then configString h key else fallback)"

definition scriptTable :: "Host \<Rightarrow> string \<Rightarrow> ScriptDef option" where
  "scriptTable h ext =
     (if ext = ''sh'' then
        Some \<lparr> sd_exec = [], sd_type = ''bash'', sd_args = [],
               sd_enabled = configFlag h ''enableBash'' \<rparr>
      else if ext = ''py'' then
        Some \<lparr> sd_exec = configuredPath h ''pathToPython'' ''python'', sd_type = ''python'',
               sd_args = [], sd_enabled = configFlag h ''enablePython'' \<rparr>
      else if ext = ''rb'' then
        Some \<lparr> sd_exec = configuredPath h ''pathToRuby'' ''ruby'', sd_type = ''ruby'',
               sd_args = [], sd_enabled = configFlag h ''enableRuby'' \<rparr>
      else if ext = ''ps1'' then
        Some \<lparr> sd_exec = ''powershell'', sd_type = ''powershell'', sd_args = [],
               sd_enabled = configFlag h ''enablePowershell'' \<rparr>
      else if ext = ''pl'' then
        Some \<lparr> sd_exec = configuredPath h ''pathToPerl'' ''perl'', sd_type = ''perl'',
               sd_args = [], sd_enabled = configFlag h ''enablePerl'' \<rparr>
      else if ext = ''bat'' then
        Some \<lparr> sd_exec = ''cmd.exe'', sd_type = ''batch'', sd_args = [''/c''],
               sd_enabled = configFlag h ''enableBatch'' \<rparr>
      else if ext = ''nsi'' then
        Some \<lparr> sd_exec = configuredPath h ''pathToNsis'' ''makensis.exe'', sd_type = ''nsis'',
               sd_args = [], sd_enabled = configFlag h ''enableNsis'' \<rparr>
      else None)"

text \<open>\<open>new RegExp("%[1-9]").test(contents)\<close>.\<close>

fun testArgPattern :: "string \<Rightarrow> bool" where
  "testArgPattern (c # d # cs) =
     ((c = CHR ''%'' \<and> d \<in> set ''123456789'') \<or> testArgPattern (d # cs))"
| "testArgPattern cs = False"

definition quoteIfSpaced :: "string \<Rightarrow> string \<Rightarrow> string" where
  "quoteIfSpaced probe s = (if indexOf probe '' '' 0 \<noteq> None then [CHR 0x22] @ s @ [CHR 0x22] else s)"

text \<open>
  \<open>createScriptTask\<close>. Reading a field of an undefined table entry or of an
  undefined folder is a type error; a batch file that cannot be read is an I/O error.
\<close>

definition createScriptTask ::
  "Host \<Rightarrow> ScriptDef option \<Rightarrow> WorkspaceFolder option \<Rightarrow> Uri \<Rightarrow> error + Task" where
  "createScriptTask h scriptDef folder uri =
     (case scriptDef of
        None \<Rightarrow> Inl TypeError
      | Some sd \<Rightarrow>
          let cwd = dirname (fsPath uri);
              fileName = basename (fsPath uri);
              sep = (if win32 h then [CHR 0x5C] else ''/'');
              cmdLine0 = quoteIfSpaced (sd_exec sd) (sd_exec sd)
          in (case (if sd_type sd = ''batch''
                    then map_sum id testArgPattern (readFile h (fsPath uri))
                    else Inr False) of
                Inl e \<Rightarrow> Inl e
              | Inr requiresArgs \<Rightarrow>
                  (case folder of
                     None \<Rightarrow> Inl TypeError
                   | Some f \<Rightarrow>
                       let relativePath = getRelativePath f uri;
                           cmdLine1 = foldl (\<lambda>line arg. line @ '' '' @ arg) cmdLine0 (sd_args sd);
                           cmdLine = cmdLine1 @ '' '' @ quoteIfSpaced fileName (''.'' @ sep @ fileName);
                           kind = \<lparr> def_type = ''script'', def_script = None,
                                    def_path = Some (if relativePath \<noteq> [] then relativePath else []),
                                    def_fileName = Some fileName, def_uri = Some uri,
                                    def_scriptType = Some (sd_type sd),
                                    def_cmdLine = Some cmdLine,
                                    def_scriptFile = True, def_requiresArgs = requiresArgs \<rparr>
                       in Inr \<lparr> task_definition = kind, task_scope = ScopeFolder f,
                                task_name = fileName, task_source = sd_type sd,
                                task_execution = \<lparr> se_command = cmdLine, se_args = [],
                                                    se_cwd = cwd, se_executable = None \<rparr>,
                                task_isBuild = False \<rparr>)))"

section \<open>Full scans\<close>







definition scriptTaskOf :: "Host \<Rightarrow> WorkspaceFolder option \<Rightarrow> Uri \<Rightarrow> error + Task" where
  "scriptTaskOf h folder uri =
     createScriptTask h (scriptTable h (substringFrom (extname (fsPath uri)) 1)) folder uri"


section \<open>Caches\<close>

text \<open>
  The cache of a detector is undefined (\<open>None\<close>) or a list of tasks. An invalidation
  returns the error it ends with, if any, and the cache it leaves behind.
\<close>

type_synonym Cache = "Task list option"

definition taskFsPath :: "Task \<Rightarrow> string option" where
  "taskFsPath t = map_option fsPath (def_uri (task_definition t))"

definition removeTasks :: "Task list \<Rightarrow> Task list \<Rightarrow> Task list" where
  "removeTasks cachedTasks rmvTasks = foldl removeFromArray cachedTasks rmvTasks"

definition settle :: "Task list \<Rightarrow> error option \<times> Cache" where
  "settle cachedTasks = (if length cachedTasks > 0 then (None, Some cachedTasks) else (None, None))"

text \<open>
  \<open>invalidateTasksCacheAnt\<close> and \<open>invalidateTasksCacheGradle\<close> have the same body but
  for the reader; \<open>invalidateFile\<close> is that body.
\<close>

definition invalidateFile ::
  "Host \<Rightarrow> (Uri \<Rightarrow> error + Task list) \<Rightarrow> Uri option \<Rightarrow> Cache \<Rightarrow> error option \<times> Cache" where
  "invalidateFile h rd opt cachedTasks =
     (case opt of
        None \<Rightarrow> (None, None)
      | Some uri \<Rightarrow>
          (case cachedTasks of
             None \<Rightarrow> (None, None)
           | Some tasks \<Rightarrow>
               if \<exists>each \<in> set tasks. taskFsPath each = None then (Some TypeError, Some tasks)
               else
                 let rmvTasks =
                       filter (\<lambda>each. case taskFsPath each of
                                         None \<Rightarrow> False
                                       | Some p \<Rightarrow> p = fsPath uri \<or> \<not> pathExists h p) tasks;
                     tasks' = removeTasks tasks rmvTasks
                 in if pathExists h (fsPath uri) \<and> \<not> existsInArray (exclude h) (uri_path uri)
                    then (case rd uri of
                            Inl e \<Rightarrow> (Some e, Some tasks')
                          | Inr new \<Rightarrow> settle (tasks' @ new))
                    else settle tasks'))"

definition invalidateTasksCacheAnt :: "Host \<Rightarrow> Uri option \<Rightarrow> Cache \<Rightarrow> error option \<times> Cache" where
  "invalidateTasksCacheAnt h opt cachedTasks = invalidateFile h (readAntfile h) opt cachedTasks"

definition invalidateTasksCacheGradle :: "Host \<Rightarrow> Uri option \<Rightarrow> Cache \<Rightarrow> error option \<times> Cache" where
  "invalidateTasksCacheGradle h opt cachedTasks = invalidateFile h (readGradlefile h) opt cachedTasks"

text \<open>
  \<open>invalidateTasksCacheScript\<close>: the cache is read without a test that it is defined;
  the callback that collects the tasks to remove is asynchronous, so a task without a
  \<open>uri\<close> is passed over; the task of the file is built and pushed whatever the event.
\<close>

definition invalidateTasksCacheScript :: "Host \<Rightarrow> Uri option \<Rightarrow> Cache \<Rightarrow> error option \<times> Cache" where
  "invalidateTasksCacheScript h opt cachedTasks =
     (case opt of
        None \<Rightarrow> (None, None)
      | Some uri \<Rightarrow>
          (case cachedTasks of
             None \<Rightarrow> (Some TypeError, None)
           | Some tasks \<Rightarrow>
               let folder = getWorkspaceFolder h uri;
                   rmvTasks = filter (\<lambda>each. taskFsPath each = Some (fsPath uri)) tasks;
                   tasks' = removeTasks tasks rmvTasks
               in (case scriptTaskOf h folder uri of
                     Inl e \<Rightarrow> (Some e, Some tasks')
                   | Inr task \<Rightarrow> (None, Some (tasks' @ [task])))))"


section \<open>Tree builder\<close>

text \<open>
  The nodes of the tree, with the fields the tree builder sets and reads. A
  \<open>TaskItem\<close> wraps one task; a \<open>TaskFile\<close> that stands for a file owns task
  items, and one that stands for a group (\<open>TaskGroup\<close>) owns the task files moved
  under it. \<open>tf_id\<close> is the key under which the builder registers a task file; it
  stands for the identity of the object.
\<close>

record TaskItem =
  ti_label :: string
  ti_task :: Task

record TaskFile =
  tf_id :: string
  tf_label :: string
  tf_path :: string
  tf_taskSource :: string
  tf_fileName :: string
  tf_scripts :: "TaskItem list"

record TaskGroup =
  tg_label :: string
  tg_path :: string
  tg_taskSource :: string
  tg_files :: "TaskFile list"

definition newTaskItem :: "Task \<Rightarrow> TaskItem" where
  "newTaskItem task =
     (let taskName = task_name task
      in \<lparr> ti_label =
             (case indexOf taskName '' - '' 0 of
                None \<Rightarrow> taskName
              | Some i \<Rightarrow>
                  if indexOf taskName ''/'' 0 \<noteq> None \<or> indexOf taskName [CHR 0x5C] 0 \<noteq> None \<or>
                     indexOf taskName '' - tsconfig.json'' 0 \<noteq> None
                  then substring taskName 0 i
                  else taskName),
           ti_task = task \<rparr>)"

definition getLabel :: "TaskDefinition \<Rightarrow> string \<Rightarrow> string \<Rightarrow> bool \<Rightarrow> string" where
  "getLabel taskDef source relativePath isGroup =
     (let label = (if source = ''Workspace'' then ''vscode'' else source);
          named = (\<lambda>inner. label @ '' ('' @ inner @ '')'');
          located = (relativePath \<noteq> [] \<and> relativePath \<noteq> ''.vscode'');
          chopped = toLowerCase (substring relativePath 0 (length relativePath - 1))
      in if isGroup then toLowerCase label
         else (case (if source = ''ant'' then def_fileName taskDef else None) of
                 Some fileName \<Rightarrow>
                   if fileName \<noteq> [] \<and> fileName \<noteq> ''build.xml'' \<and> fileName \<noteq> ''Build.xml''
                   then (if located then named (chopped @ ''/'' @ toLowerCase fileName)
                         else named (toLowerCase fileName))
                   else if located
                   then (if endsWith relativePath [CHR 0x5C] \<or> endsWith relativePath ''/''
                         then named chopped else named (toLowerCase relativePath))
                   else toLowerCase label
               | None \<Rightarrow>
                   if located
                   then (if endsWith relativePath [CHR 0x5C] \<or> endsWith relativePath ''/''
                         then named chopped else named (toLowerCase relativePath))
                   else toLowerCase label))"

definition getFileNameFromSource :: "string \<Rightarrow> TaskDefinition \<Rightarrow> string" where
  "getFileNameFromSource source taskDef =
     (case def_fileName taskDef of
        Some fileName \<Rightarrow>
          if fileName \<noteq> [] then basename fileName
          else if source = ''Workspace'' then ''.vscode'' @ [CHR 0x5C] @ ''tasks.json''
          else if source = ''tsc'' then ''tsconfig.json''
          else ''package.json''
      | None \<Rightarrow>
          if source = ''Workspace'' then ''.vscode'' @ [CHR 0x5C] @ ''tasks.json''
          else if source = ''tsc'' then ''tsconfig.json''
          else ''package.json'')"

definition newTaskFile :: "string \<Rightarrow> TaskDefinition \<Rightarrow> string \<Rightarrow> string \<Rightarrow> TaskFile" where
  "newTaskFile fileId taskDef source relativePath =
     \<lparr> tf_id = fileId, tf_label = getLabel taskDef source relativePath False,
       tf_path = relativePath, tf_taskSource = source,
       tf_fileName = getFileNameFromSource source taskDef, tf_scripts = [] \<rparr>"

definition newTaskGroup :: "TaskDefinition \<Rightarrow> string \<Rightarrow> string \<Rightarrow> TaskGroup" where
  "newTaskGroup taskDef source relativePath =
     \<lparr> tg_label = getLabel taskDef source relativePath True, tg_path = relativePath,
       tg_taskSource = source, tg_files = [] \<rparr>"

subsection \<open>Placing the tasks\<close>

definition getTaskName :: "string \<Rightarrow> string option \<Rightarrow> bool \<Rightarrow> string" where
  "getTaskName script relativePath forcePathInName =
     (case relativePath of
        None \<Rightarrow> script
      | Some p \<Rightarrow>
          if p \<noteq> [] \<and> forcePathInName
          then script @ '' - '' @ substring p 0 (length p - 1)
          else script)"

text \<open>\<open>isInstallTask\<close> calls \<open>getTaskName\<close> without its third argument.\<close>

definition isInstallTask :: "Task \<Rightarrow> bool" where
  "isInstallTask task =
     (getTaskName ''install'' (def_path (task_definition task)) False = task_name task)"

definition isWorkspaceFolder :: "TaskScope \<Rightarrow> bool" where
  "isWorkspaceFolder v = (case v of ScopeFolder f \<Rightarrow> True | _ \<Rightarrow> False)"

text \<open>
  The state of the first loop of \<open>buildTaskTree\<close>: the map \<open>folders\<close> from folder
  name to folder, and the map \<open>files\<close> from id to task file. A folder lists its task
  files by their ids, since the task files are shared with the map \<open>files\<close>.

  Modelled from the spec: \<open>TaskFolder\<close> is not in the sources; it has the name of
  its workspace folder as its label, \<open>addTaskFile\<close> appends a task file to its
  children and \<open>removeTaskFile\<close> removes the given task file from them. The enable
  flag of a type is the setting \<open>enable\<close> followed by \<open>util.properCase\<close> of the type;
  \<open>enableFlag\<close> of the host gives it by type.
\<close>

record FolderEntry =
  fe_workspaceFolder :: WorkspaceFolder
  fe_taskFiles :: "string list"

record BuildState =
  bs_folders :: "(string \<times> FolderEntry) list"
  bs_files :: "(string \<times> TaskFile) list"

definition addTaskFile :: "(string \<times> FolderEntry) list \<Rightarrow> string \<Rightarrow> string \<Rightarrow> (string \<times> FolderEntry) list" where
  "addTaskFile folders name fileId =
     (case map_of folders name of
        None \<Rightarrow> folders
      | Some folder \<Rightarrow> objUpdate folders name (folder \<lparr> fe_taskFiles := fe_taskFiles folder @ [fileId] \<rparr>))"

text \<open>
  The directory a task of the TypeScript compiler names after \<open>" - "\<close>, when its
  name is not that of a \<open>tsconfig.json\<close> at the folder root.
\<close>

definition tscDirectory :: "Task \<Rightarrow> string option" where
  "tscDirectory each =
     (if task_source each = ''tsc''
      then (case indexOf (task_name each) '' - '' 0 of
              None \<Rightarrow> None
            | Some i \<Rightarrow>
                if indexOf (task_name each) '' - tsconfig.json'' 0 = None
                then Some (dirname (substringFrom (task_name each) (i + 3)))
                else None)
      else None)"

definition ensureFolder ::
  "(string \<times> FolderEntry) list \<Rightarrow> WorkspaceFolder \<Rightarrow> (string \<times> FolderEntry) list" where
  "ensureFolder folders scope =
     (case map_of folders (wf_name scope) of
        None \<Rightarrow> objUpdate folders (wf_name scope)
                  \<lparr> fe_workspaceFolder = scope, fe_taskFiles = [] \<rparr>
      | Some folder \<Rightarrow> folders)"

definition taskRelativePath :: "Task \<Rightarrow> string" where
  "taskRelativePath each =
     (case tscDirectory each of
        Some d \<Rightarrow> d
      | None \<Rightarrow> (case def_path (task_definition each) of None \<Rightarrow> [] | Some p \<Rightarrow> p))"

definition taskFileId :: "Host \<Rightarrow> WorkspaceFolder \<Rightarrow> Task \<Rightarrow> string" where
  "taskFileId h scope each =
     (let baseId = task_source each @ '':'' @ pathJoin h (wf_name scope) (taskRelativePath each)
      in case def_fileName (task_definition each) of
           None \<Rightarrow> baseId
         | Some fileName \<Rightarrow>
             if fileName \<noteq> [] \<and> \<not> def_scriptFile (task_definition each)
             then pathJoin h baseId fileName else baseId)"

text \<open>
  The end of the loop body: the task file of the id is looked up, or created and
  added to the folder and to the map \<open>files\<close>; the task item is added to it.
\<close>

definition addTaskItem :: "BuildState \<Rightarrow> WorkspaceFolder \<Rightarrow> string \<Rightarrow> Task \<Rightarrow> BuildState" where
  "addTaskItem st scope fileId each =
     (case map_of (bs_files st) fileId of
        None \<Rightarrow>
          \<lparr> bs_folders = addTaskFile (bs_folders st) (wf_name scope) fileId,
            bs_files = objUpdate (bs_files st) fileId
              ((newTaskFile fileId (task_definition each) (task_source each) (taskRelativePath each))
                 \<lparr> tf_scripts := [newTaskItem each] \<rparr>) \<rparr>
      | Some taskFile \<Rightarrow>
          st \<lparr> bs_files := objUpdate (bs_files st) fileId
                 (taskFile \<lparr> tf_scripts := tf_scripts taskFile @ [newTaskItem each] \<rparr>) \<rparr>)"

definition placeTask :: "Host \<Rightarrow> BuildState \<Rightarrow> Task \<Rightarrow> BuildState" where
  "placeTask h st each =
     (if enableFlag h (task_source each) \<and> isWorkspaceFolder (task_scope each) \<and>
         \<not> isInstallTask each
      then (case task_scope each of
              ScopeFolder scope \<Rightarrow>
                let st' = st \<lparr> bs_folders := ensureFolder (bs_folders st) scope \<rparr>
                in if tscDirectory each \<noteq> None \<and>
                      isExcluded h (pathJoin h (uri_path (wf_uri scope)) (taskRelativePath each))
                   then st'
                   else addTaskItem st' scope (taskFileId h scope each) each
            | _ \<Rightarrow> st)
      else st)"

definition placeTasks :: "Host \<Rightarrow> Task list \<Rightarrow> BuildState" where
  "placeTasks h tasks = foldl (placeTask h) \<lparr> bs_folders = [], bs_files = [] \<rparr> tasks"

definition folderFiles :: "BuildState \<Rightarrow> FolderEntry \<Rightarrow> TaskFile list" where
  "folderFiles st folder =
     concat (map (\<lambda>fileId. case map_of (bs_files st) fileId of None \<Rightarrow> [] | Some f \<Rightarrow> [f])
                 (fe_taskFiles folder))"

subsection \<open>Sorting and grouping\<close>

text \<open>
  A child of a folder after grouping: a task file, or a group, named by its key in
  the map \<open>subfolders\<close> and its task source. \<open>localeCompare\<close> is taken as the
  comparison of collation keys, given by the parameter \<open>ck\<close>; the sort is stable.
\<close>

datatype TreeNode = FileNode TaskFile | GroupNode string string

type_synonym Subfolders = "string \<Rightarrow> TaskGroup option"

definition nodeSource :: "TreeNode \<Rightarrow> string" where
  "nodeSource n = (case n of FileNode f \<Rightarrow> tf_taskSource f | GroupNode key source \<Rightarrow> source)"

definition removeTaskFile :: "TreeNode list \<Rightarrow> TreeNode \<Rightarrow> TreeNode list" where
  "removeTaskFile taskFiles taskFile = remove1 taskFile taskFiles"

text \<open>
  The loop that walks the sorted task files of a folder with \<open>prevTask\<close>. The groups
  it creates are appended to the folder's children, collected in \<open>added\<close>; \<open>forEach\<close>
  does not visit them. A group is made from the definition of the first task item
  of \<open>each\<close>: with no task item that is a type error.
\<close>

fun promoteWalk ::
  "string \<Rightarrow> TaskFile option \<Rightarrow> TaskFile list \<Rightarrow> Subfolders \<Rightarrow> TreeNode list
   \<Rightarrow> error + Subfolders \<times> TreeNode list" where
  "promoteWalk label prevTask [] subfolders added = Inr (subfolders, added)"
| "promoteWalk label prevTask (each # rest) subfolders added =
     (case prevTask of
        None \<Rightarrow> promoteWalk label (Some each) rest subfolders added
      | Some prev \<Rightarrow>
          if tf_taskSource prev = tf_taskSource each
          then (let key = label @ tf_taskSource each
                in case subfolders key of
                     Some subfolder \<Rightarrow>
                       promoteWalk label (Some each) rest
                         (subfolders(key \<mapsto> subfolder \<lparr> tg_files := tg_files subfolder @ [each] \<rparr>))
                         added
                   | None \<Rightarrow>
                       (case tf_scripts each of
                          [] \<Rightarrow> Inl TypeError
                        | first # others \<Rightarrow>
                            promoteWalk label (Some each) rest
                              (subfolders(key \<mapsto>
                                 (newTaskGroup (task_definition (ti_task first))
                                    (tf_taskSource each) (tf_path each))
                                 \<lparr> tg_files := [prev, each] \<rparr>))
                              (added @ [GroupNode key (tf_taskSource each)])))
          else promoteWalk label (Some each) rest subfolders added)"

definition sortedTaskFiles :: "(string \<Rightarrow> 'k::linorder) \<Rightarrow> TaskFile list \<Rightarrow> TaskFile list" where
  "sortedTaskFiles ck taskFiles =
     sort_key (\<lambda>a. ck (tf_taskSource a))
       (map (\<lambda>each. each \<lparr> tf_scripts := sort_key (\<lambda>a. ck (ti_label a)) (tf_scripts each) \<rparr>)
            taskFiles)"

definition promoteFolder ::
  "(string \<Rightarrow> 'k::linorder) \<Rightarrow> string \<Rightarrow> TaskFile list \<Rightarrow> Subfolders
   \<Rightarrow> error + Subfolders \<times> TreeNode list" where
  "promoteFolder ck label taskFiles subfolders =
     (let sorted = sortedTaskFiles ck taskFiles
      in case promoteWalk label None sorted subfolders [] of
           Inl e \<Rightarrow> Inl e
         | Inr (subfolders', added) \<Rightarrow>
             let nodes = map FileNode sorted @ added;
                 taskTypesRmv =
                   filter (\<lambda>each. case each of
                                     FileNode f \<Rightarrow> subfolders' (label @ tf_taskSource f) \<noteq> None
                                   | GroupNode key source \<Rightarrow> False) nodes;
                 nodes' = foldl removeTaskFile nodes taskTypesRmv
             in Inr (subfolders', sort_key (\<lambda>a. ck (nodeSource a)) nodes'))"

fun promoteFolders ::
  "(string \<Rightarrow> 'k::linorder) \<Rightarrow> (string \<times> TaskFile list) list \<Rightarrow> Subfolders
   \<Rightarrow> error + Subfolders \<times> (string \<times> TreeNode list) list" where
  "promoteFolders ck [] subfolders = Inr (subfolders, [])"
| "promoteFolders ck ((label, taskFiles) # folders) subfolders =
     (case promoteFolder ck label taskFiles subfolders of
        Inl e \<Rightarrow> Inl e
      | Inr (subfolders', nodes) \<Rightarrow>
          (case promoteFolders ck folders subfolders' of
             Inl e \<Rightarrow> Inl e
           | Inr (subfolders'', tree) \<Rightarrow> Inr (subfolders'', (label, nodes) # tree)))"

text \<open>
  \<open>buildTaskTree\<close>: the folders in the order of the map \<open>folders\<close>, each with its
  children, and the map of the groups, which holds the children of every group.
\<close>

definition buildTaskTree ::
  "Host \<Rightarrow> (string \<Rightarrow> 'k::linorder) \<Rightarrow> Task list
   \<Rightarrow> error + Subfolders \<times> (string \<times> TreeNode list) list" where
  "buildTaskTree h ck tasks =
     (let st = placeTasks h tasks
      in promoteFolders ck (map (\<lambda>(name, folder). (name, folderFiles st folder)) (bs_folders st))
           (\<lambda>key. None))"

section \<open>Sample workspace\<close>

text \<open>
  A workspace folder \<open>/ws\<close> on a POSIX host with default settings, used to evaluate
  the detectors on concrete files. \<open>antText\<close> is an Ant build file with the targets
  \<open>compile\<close> and \<open>dist\<close>, the second one being the default; \<open>sampleParse\<close> is
  what xml2js returns for it.
\<close>

definition fileUri :: "string \<Rightarrow> Uri" where
  "fileUri p = \<lparr> uri_path = p, fsPath = p \<rparr>"

definition sampleFolder :: WorkspaceFolder where
  "sampleFolder = \<lparr> wf_name = ''ws'', wf_uri = fileUri ''/ws'' \<rparr>"

definition antText :: string where
  "antText =
     ''<project name=\"demo\" default=\"dist\"><target name=\"compile\"/><target name=\"dist\"/></project>''"

definition antProject :: XmlProject where
  "antProject =
     \<lparr> prj_attrs = Some [(''name'', ''demo''), (''default'', ''dist'')],
       prj_target = Some [\<lparr> tgt_attrs = Some [(''name'', ''compile'')] \<rparr>,
                          \<lparr> tgt_attrs = Some [(''name'', ''dist'')] \<rparr>] \<rparr>"

text \<open>
  \<open>clashText\<close> is an Ant build file that names one target \<open>dist - Default\<close> and
  makes the target \<open>dist\<close> the default; \<open>plainText\<close> is the same file without the
  \<open>default\<close> attribute.
\<close>

definition clashText :: string where
  "clashText =
     ''<project name=\"demo\" default=\"dist\"><target name=\"dist - Default\"/><target name=\"dist\"/></project>''"

definition plainText :: string where
  "plainText =
     ''<project name=\"demo\"><target name=\"dist - Default\"/><target name=\"dist\"/></project>''"

definition clashProject :: "Attrs \<Rightarrow> XmlProject" where
  "clashProject a =
     \<lparr> prj_attrs = Some a,
       prj_target = Some [\<lparr> tgt_attrs = Some [(''name'', ''dist - Default'')] \<rparr>,
                          \<lparr> tgt_attrs = Some [(''name'', ''dist'')] \<rparr>] \<rparr>"

text \<open>
  \<open>gradleText\<close> is a Gradle file of four lines; the last line has no newline after
  it.
\<close>

definition gradleText :: string where
  "gradleText =
     ''task compile(type: Exec) {'' @ [CHR 0x0A] @
     ''task docs'' @ [CHR 0x0A] @
     ''task pack {'' @ [CHR 0x0A] @
     ''task deploy {''"

definition sampleParse :: "string \<Rightarrow> XmlResult" where
  "sampleParse buffer =
     (if buffer = antText then XmlOk (JsonRoot (Some antProject))
      else if buffer = clashText
      then XmlOk (JsonRoot (Some (clashProject [(''name'', ''demo''), (''default'', ''dist'')])))
      else if buffer = plainText
      then XmlOk (JsonRoot (Some (clashProject [(''name'', ''demo'')])))
      else XmlErr)"

definition sampleFind :: "WorkspaceFolder \<Rightarrow> string \<Rightarrow> Uri list" where
  "sampleFind folder pattern =
     (if pattern = ''**/[Bb]uild.xml''
      then [fileUri ''/ws/build.xml'', fileUri ''/ws/broken/build.xml'',
            fileUri ''/ws/sub/Build.xml'']
      else if pattern = ''**/*.[Gg][Rr][Aa][Dd][Ll][Ee]''
      then [fileUri ''/ws/app/build.gradle'']
      else if pattern = ''**/*.{sh,py,rb,ps1,pl,bat,nsi}''
      then [fileUri ''/ws/run.sh'', fileUri ''/ws/deploy.bat'', fileUri ''/ws/clean.bat'']
      else [])"

definition sampleHost :: Host where
  "sampleHost =
     \<lparr> win32 = False,
       files = map_of [(''/ws/build.xml'', antText), (''/ws/custom.xml'', antText),
                       (''/ws/sub/Build.xml'', antText),
                       (''/ws/broken/build.xml'', ''<project''),
                       (''/ws/clash/build.xml'', clashText),
                       (''/ws/plain/build.xml'', plainText),
                       (''/ws/app/build.gradle'', gradleText),
                       (''/ws/run.sh'', ''echo done''),
                       (''/ws/deploy.bat'', ''copy %1 out''),
                       (''/ws/clean.bat'', ''del /q out'')],
       dirs = (\<lambda>p. p \<in> set [''/ws'', ''/ws/sub'']),
       workspaceFolders = Some [sampleFolder],
       findFiles = sampleFind,
       getWorkspaceFolder = (\<lambda>uri. if startsWith (uri_path uri) ''/ws/'' then Some sampleFolder else None),
       isExcluded = (\<lambda>p. False),
       parseString = sampleParse,
       pathJoin = (\<lambda>a b. if b = [] then a else if endsWith a ''/'' then a @ b else a @ ''/'' @ b),
       configString = (\<lambda>key. []),
       configFlag = (\<lambda>key. False),
       exclude = [],
       includeAnt = IncUnset,
       enableFlag = (\<lambda>source. True) \<rparr>"

text \<open>
  \<open>raceHost\<close> is the sample workspace after three of its files have been deleted,
  while the glob search still reports them.
\<close>

definition raceHost :: Host where
  "raceHost =
     sampleHost \<lparr> files :=
       (\<lambda>p. if p \<in> set [''/ws/build.xml'', ''/ws/app/build.gradle'', ''/ws/deploy.bat'']
            then None else files sampleHost p) \<rparr>"

lemmas string_defs =
  isWhiteSpace_def trimLeft_def trimRight_def trim_def upperLetters_def lowerLetters_def
  lowerChar_def toLowerCase_def
  startsWith_def endsWith_def indexOf_def lastIndexOfChar_def substring_def
  substringFrom_def isSlash_def basename_def dirname_def extname_def

lemmas object_defs =
  objSet_def digitVal_def decimalValue_def isArrayIndex_def objectKeys_def objGet_def

lemmas sample_defs =
  fileUri_def sampleFolder_def antText_def antProject_def clashText_def plainText_def
  clashProject_def gradleText_def sampleParse_def
  sampleFind_def sampleHost_def raceHost_def

lemmas script_defs =
  readFile_def configuredPath_def scriptTable_def quoteIfSpaced_def createScriptTask_def
  scriptTaskOf_def getRelativePath_def


lemmas cache_defs =
  taskFsPath_def removeTasks_def removeFromArray_def settle_def invalidateFile_def
  invalidateTasksCacheAnt_def invalidateTasksCacheGradle_def invalidateTasksCacheScript_def
  pathExists_def existsInArray_def

lemmas gradle_defs =
  readFile_def gradleLine_def findTargetsLoop.simps findTargets_def getRelativePath_def
  gradleCommand_def createGradleTask_def readGradlefile_def

lemmas ant_defs =
  readFile_def pathExists_def findAllAntScripts_def getRelativePath_def antCommand_def
  ansiconExecutable_def createAntTask_def readAntfile_def

section \<open>Properties of the Ant detector\<close>

lemma objUpdate_subset: "set (objUpdate m k v) \<subseteq> insert (k, v) (set m)"
  by (induction m k v rule: objUpdate.induct) auto

lemma objSet_subset: "set (objSet m k v) \<subseteq> insert (k, v) (set m)"
  using objUpdate_subset[of m k v] by (auto simp: objSet_def)

lemma objectKeys_set: "set (objectKeys m) = fst ` set m"
  by (auto simp: objectKeys_def)

lemma antTargets_pairs:
  assumes "\<forall>(k, v) \<in> set m. P k v"
    and "\<And>n. n \<noteq> [] \<Longrightarrow> P n n \<and> P (n @ '' - Default'') n"
  shows "\<forall>(k, v) \<in> set (antTargets d tgts m). P k v"
  using assms(1)
proof (induction tgts arbitrary: m)
  case Nil
  then show ?case by simp
next
  case (Cons tgt tgts)
  show ?case
  proof (cases "tgt_attrs tgt")
    case None
    with Cons show ?thesis by simp
  next
    case (Some a)
    show ?thesis
    proof (cases "map_of a ''name''")
      case None
      with Some Cons show ?thesis by simp
    next
      case (Some n)
      note n = Some
      show ?thesis
      proof (cases "n = []")
        case True
        with n \<open>tgt_attrs tgt = Some a\<close> Cons show ?thesis by simp
      next
        case False
        let ?k = "if d = Some n then n @ '' - Default'' else n"
        have "P ?k n" using assms(2)[OF False] by simp
        with Cons.prems objSet_subset[of m ?k n]
        have "\<forall>(k, v) \<in> set (objSet m ?k n). P k v" by auto
        from Cons.IH[OF this] n False \<open>tgt_attrs tgt = Some a\<close>
        show ?thesis by simp
      qed
    qed
  qed
qed

lemma antTargets_nonempty:
  "(k, v) \<in> set (antTargets d tgts []) \<Longrightarrow> k \<noteq> [] \<and> v \<noteq> []"
  using antTargets_pairs[of "[]" "\<lambda>k v. k \<noteq> [] \<and> v \<noteq> []" d tgts] by auto

lemma findAllAntScripts_nonempty:
  "findAllAntScripts h c = Inr scripts \<Longrightarrow> (k, v) \<in> set scripts \<Longrightarrow> k \<noteq> [] \<and> v \<noteq> []"
  unfolding findAllAntScripts_def
  by (auto split: XmlResult.splits XmlJson.splits option.splits dest: antTargets_nonempty)

text \<open>
  C1, as the code has it. Every descriptor the Ant detector builds for a file runs
  the target its display name is registered under, and its arguments are the target
  name, followed by \<open>-f\<close> and the file name when the file name, compared without
  regard to letter case, is not \<open>build.xml\<close>. With the colour wrapper switched on
  (Windows, \<open>enableAnsiconForAnt\<close>) the logger option and its class come before the
  target name.
\<close>

theorem ant_invocation_args:
  assumes "readAntfile h uri = Inr tasks" and "t \<in> set tasks"
  shows "\<exists>contents scripts target.
           readFile h (fsPath uri) = Inr contents \<and>
           findAllAntScripts h contents = Inr scripts \<and>
           objGet scripts (task_name t) = Some target \<and>
           def_script (task_definition t) = Some target \<and>
           se_args (task_execution t) =
             (if win32 h \<and> configFlag h ''enableAnsiconForAnt''
              then [''-logger'', ''org.apache.tools.ant.listener.AnsiColorLogger'', target]
              else [target]) @
             (if toLowerCase (basename (uri_path uri)) = ''build.xml'' then []
              else [''-f'', basename (uri_path uri)])"
proof -
  from assms obtain folder contents scripts where
    f: "getWorkspaceFolder h uri = Some folder" and
    r: "readFile h (fsPath uri) = Inr contents" and
    s: "findAllAntScripts h contents = Inr scripts" and
    ts: "tasks = map (\<lambda>each.
                 (createAntTask h
                    (case objGet scripts each of None \<Rightarrow> each
                     | Some v \<Rightarrow> if v \<noteq> [] then v else each)
                    each folder uri) \<lparr> task_isBuild := True \<rparr>) (objectKeys scripts)"
    by (auto simp: readAntfile_def split: option.splits sum.splits)
  from ts assms(2) obtain each where
    e: "each \<in> set (objectKeys scripts)" and
    t: "t = (createAntTask h
               (case objGet scripts each of None \<Rightarrow> each
                | Some v \<Rightarrow> if v \<noteq> [] then v else each)
               each folder uri) \<lparr> task_isBuild := True \<rparr>"
    by auto
  from e obtain v0 where "(each, v0) \<in> set scripts"
    by (auto simp: objectKeys_set)
  then obtain v where v: "map_of scripts each = Some v"
    by (metis map_of_eq_None_iff not_Some_eq fst_conv image_eqI)
  then have "(each, v) \<in> set scripts" by (rule map_of_SomeD)
  with s have ne: "each \<noteq> []" "v \<noteq> []"
    using findAllAntScripts_nonempty by blast+
  have "objGet scripts (task_name t) = Some v"
    using t v ne by (simp add: createAntTask_def objGet_def Let_def)
  moreover have "def_script (task_definition t) = Some v"
    using t v ne by (simp add: createAntTask_def objGet_def Let_def)
  moreover have "se_args (task_execution t) =
             (if win32 h \<and> configFlag h ''enableAnsiconForAnt''
              then [''-logger'', ''org.apache.tools.ant.listener.AnsiColorLogger'', v]
              else [v]) @
             (if toLowerCase (basename (uri_path uri)) = ''build.xml'' then []
              else [''-f'', basename (uri_path uri)])"
    using t v ne by (simp add: createAntTask_def objGet_def Let_def)
  ultimately show ?thesis using r s by blast
qed


theorem ant_invocation_args_witness:
  "readAntfile sampleHost (fileUri ''/ws/build.xml'') =
     Inr [createAntTask sampleHost ''compile'' ''compile'' sampleFolder (fileUri ''/ws/build.xml'')
            \<lparr> task_isBuild := True \<rparr>,
          createAntTask sampleHost ''dist'' ''dist - Default'' sampleFolder (fileUri ''/ws/build.xml'')
            \<lparr> task_isBuild := True \<rparr>] \<and>
   se_args (task_execution
     (createAntTask sampleHost ''compile'' ''compile'' sampleFolder (fileUri ''/ws/build.xml'')
        \<lparr> task_isBuild := True \<rparr>)) = [''compile'']"
proof -
  let ?t = "createAntTask sampleHost ''compile'' ''compile'' sampleFolder (fileUri ''/ws/build.xml'')
              \<lparr> task_isBuild := True \<rparr>"
  let ?u = "createAntTask sampleHost ''dist'' ''dist - Default'' sampleFolder (fileUri ''/ws/build.xml'')
              \<lparr> task_isBuild := True \<rparr>"
  have r: "readAntfile sampleHost (fileUri ''/ws/build.xml'') = Inr [?t, ?u]"
    by (simp add: readAntfile_def readFile_def findAllAntScripts_def sample_defs object_defs
        startsWith_def Let_def)
  have m: "?t \<in> set [?t, ?u]" by simp
  from ant_invocation_args[OF r m] obtain target where
    "def_script (task_definition ?t) = Some target" and
    a: "se_args (task_execution ?t) =
         (if win32 sampleHost \<and> configFlag sampleHost ''enableAnsiconForAnt''
          then [''-logger'', ''org.apache.tools.ant.listener.AnsiColorLogger'', target]
          else [target]) @
         (if toLowerCase (basename (uri_path (fileUri ''/ws/build.xml''))) = ''build.xml'' then []
          else [''-f'', basename (uri_path (fileUri ''/ws/build.xml''))])"
    by blast
  then have "target = ''compile''" by (simp add: createAntTask_def Let_def)
  with a have "se_args (task_execution ?t) = [''compile'']"
    by (simp add: sample_defs string_defs Let_def)
  with r show ?thesis by simp
qed

text \<open>
  The claim as the spec words it fails: for \<open>custom.xml\<close> the file option follows the
  target name, and \<open>Build.xml\<close>, which is not literally \<open>build.xml\<close>, gets no file
  option at all.
\<close>

theorem ant_invocation_args_counterexample:
  "map_sum id (map (\<lambda>t. (def_script (task_definition t), se_args (task_execution t))))
     (readAntfile sampleHost (fileUri ''/ws/custom.xml'')) =
   Inr [(Some ''compile'', [''compile'', ''-f'', ''custom.xml'']),
        (Some ''dist'', [''dist'', ''-f'', ''custom.xml''])] \<and>
   map_sum id (map (\<lambda>t. (def_script (task_definition t), se_args (task_execution t))))
     (readAntfile sampleHost (fileUri ''/ws/sub/Build.xml'')) =
   Inr [(Some ''compile'', [''compile'']), (Some ''dist'', [''dist''])]"
  by (simp add: ant_defs sample_defs object_defs string_defs Let_def)

lemma objUpdate_keys: "fst ` set (objUpdate m k v) = insert k (fst ` set m)"
  by (induction m k v rule: objUpdate.induct) auto

lemma objSet_keys:
  "fst ` set (objSet m k v) = (if k = ''__proto__'' then fst ` set m else insert k (fst ` set m))"
  by (simp add: objSet_def objUpdate_keys)

text \<open>The names of the targets \<open>findAllAntScripts\<close> accepts, in document order.\<close>

fun targetNames :: "XmlTarget list \<Rightarrow> string list" where
  "targetNames [] = []"
| "targetNames (tgt # targets) =
     (case tgt_attrs tgt of
        None \<Rightarrow> []
      | Some a \<Rightarrow>
          (case map_of a ''name'' of
             None \<Rightarrow> []
           | Some n \<Rightarrow> if n = [] then [] else [n])) @ targetNames targets"

definition displayName :: "string option \<Rightarrow> string \<Rightarrow> string" where
  "displayName defaultTask n = (if defaultTask = Some n then n @ '' - Default'' else n)"

lemma objUpdate_distinct: "distinct (map fst m) \<Longrightarrow> distinct (map fst (objUpdate m k v))"
  by (induction m k v rule: objUpdate.induct) (auto simp: objUpdate_keys)

lemma objUpdate_set:
  "distinct (map fst m) \<Longrightarrow> set (objUpdate m k v) = insert (k, v) {p \<in> set m. fst p \<noteq> k}"
  by (induction m k v rule: objUpdate.induct) (auto simp: rev_image_eqI)

lemma antTargets_step:
  "antTargets d (tgt # targets) m =
     antTargets d targets (fold (\<lambda>n m. objSet m (displayName d n) n) (targetNames [tgt]) m)"
  by (simp add: displayName_def split: option.splits)

lemma antTargets_fold:
  "antTargets d targets m = fold (\<lambda>n m. objSet m (displayName d n) n) (targetNames targets) m"
proof (induction targets arbitrary: m)
  case Nil
  then show ?case by simp
next
  case (Cons tgt targets)
  have "targetNames (tgt # targets) = targetNames [tgt] @ targetNames targets" by simp
  then show ?case
    unfolding antTargets_step Cons.IH by (simp only: fold_append comp_def)
qed

lemma fold_objSet_set:
  assumes "inj_on (displayName d) (set ns \<union> S)"
    and "distinct (map fst m)"
    and "set m = (\<lambda>n. (displayName d n, n)) ` {n \<in> S. displayName d n \<noteq> ''__proto__''}"
  shows "distinct (map fst (fold (\<lambda>n m. objSet m (displayName d n) n) ns m)) \<and>
         set (fold (\<lambda>n m. objSet m (displayName d n) n) ns m) =
           (\<lambda>n. (displayName d n, n)) ` {n \<in> S \<union> set ns. displayName d n \<noteq> ''__proto__''}"
  using assms
proof (induction ns arbitrary: m S)
  case Nil
  then show ?case by simp
next
  case (Cons n ns)
  let ?k = "displayName d n"
  let ?m = "objSet m ?k n"
  let ?S = "insert n S"
  have inj: "inj_on (displayName d) (set ns \<union> ?S)"
    using Cons.prems(1) by (simp add: Un_commute insert_commute)
  have inj': "inj_on (displayName d) (insert n S)"
    using Cons.prems(1) by (rule inj_on_subset) auto
  have d: "distinct (map fst ?m)"
    using Cons.prems(2) by (simp add: objSet_def objUpdate_distinct)
  have s: "set ?m = (\<lambda>n. (displayName d n, n)) ` {n \<in> ?S. displayName d n \<noteq> ''__proto__''}"
  proof (cases "?k = ''__proto__''")
    case True
    then have "{x \<in> ?S. displayName d x \<noteq> ''__proto__''} = {x \<in> S. displayName d x \<noteq> ''__proto__''}"
      by auto
    with True Cons.prems(3) show ?thesis by (simp add: objSet_def)
  next
    case False
    have "{p \<in> set m. fst p \<noteq> ?k} = set m - {(?k, n)}"
    proof -
      have "\<And>p. p \<in> set m \<Longrightarrow> fst p = ?k \<Longrightarrow> p = (?k, n)"
      proof -
        fix p assume "p \<in> set m" "fst p = ?k"
        with Cons.prems(3) obtain n' where "n' \<in> S" "p = (displayName d n', n')" by auto
        with \<open>fst p = ?k\<close> have "displayName d n' = displayName d n" by simp
        then have "n' = n"
          using inj' \<open>n' \<in> S\<close> by (meson inj_onD insertI1 insertI2)
        with \<open>p = (displayName d n', n')\<close> show "p = (?k, n)" by simp
      qed
      then show ?thesis by auto
    qed
    then have "set ?m = insert (?k, n) (set m)"
      using False Cons.prems(2) by (auto simp: objSet_def objUpdate_set)
    moreover have "{x \<in> ?S. displayName d x \<noteq> ''__proto__''} =
                   insert n {x \<in> S. displayName d x \<noteq> ''__proto__''}"
      using False by auto
    ultimately show ?thesis using Cons.prems(3) by simp
  qed
  from Cons.IH[OF inj d s] show ?case by simp
qed

lemma antTargets_set:
  assumes "inj_on (displayName d) (set (targetNames targets))"
  shows "distinct (map fst (antTargets d targets [])) \<and>
         set (antTargets d targets []) =
           (\<lambda>n. (displayName d n, n)) ` {n \<in> set (targetNames targets). displayName d n \<noteq> ''__proto__''}"
  using fold_objSet_set[of d "targetNames targets" "{}" "[]"] assms
  by (simp add: antTargets_fold)


lemma targetNames_nonempty: "n \<in> set (targetNames targets) \<Longrightarrow> n \<noteq> []"
  by (induction targets) (auto split: option.splits if_splits)

lemma readAntfile_set:
  assumes fl: "files h (fsPath uri) = Some c"
    and folder: "getWorkspaceFolder h uri = Some folder"
    and parse: "parseString h c = XmlOk (JsonRoot (Some prj))"
    and attrs: "prj_attrs prj = Some a"
    and tgts: "prj_target prj = Some targets"
    and inj: "inj_on (displayName (map_of a ''default'')) (set (targetNames targets))"
  shows "\<exists>tasks. readAntfile h uri = Inr tasks \<and>
           set tasks =
             (\<lambda>n. (createAntTask h n (displayName (map_of a ''default'') n) folder uri)
                     \<lparr> task_isBuild := True \<rparr>) `
               {n \<in> set (targetNames targets). displayName (map_of a ''default'') n \<noteq> ''__proto__''}"
proof -
  let ?d = "map_of a ''default''"
  let ?scripts = "antTargets ?d targets []"
  let ?mk = "\<lambda>each. (createAntTask h
                (case objGet ?scripts each of None \<Rightarrow> each
                 | Some v \<Rightarrow> if v \<noteq> [] then v else each) each folder uri)
              \<lparr> task_isBuild := True \<rparr>"
  let ?N = "{n \<in> set (targetNames targets). displayName ?d n \<noteq> ''__proto__''}"
  have dist: "distinct (map fst ?scripts)"
    and set: "set ?scripts = (\<lambda>n. (displayName ?d n, n)) ` ?N"
    using antTargets_set[OF inj] by simp_all
  have r: "readAntfile h uri = Inr (map ?mk (objectKeys ?scripts))"
    using fl folder parse attrs tgts
    by (simp add: readAntfile_def readFile_def findAllAntScripts_def)
  have mk: "?mk (displayName ?d n) =
            (createAntTask h n (displayName ?d n) folder uri) \<lparr> task_isBuild := True \<rparr>"
    if "n \<in> ?N" for n
  proof -
    from that set have "(displayName ?d n, n) \<in> set ?scripts" by blast
    with dist have "map_of ?scripts (displayName ?d n) = Some n" by (rule map_of_is_SomeI)
    moreover have "n \<noteq> []" using that targetNames_nonempty by blast
    ultimately show ?thesis by (simp add: objGet_def)
  qed
  have "set (objectKeys ?scripts) = displayName ?d ` ?N"
    unfolding objectKeys_set set by (simp add: image_image)
  then have "set (map ?mk (objectKeys ?scripts)) = (\<lambda>n. ?mk (displayName ?d n)) ` ?N"
    by (simp add: image_image)
  also have "\<dots> = (\<lambda>n. (createAntTask h n (displayName ?d n) folder uri)
                          \<lparr> task_isBuild := True \<rparr>) ` ?N"
    using mk by (intro image_cong) simp_all
  finally show ?thesis using r by blast
qed

lemma displayName_inj:
  assumes "X @ '' - Default'' \<notin> N"
  shows "inj_on (displayName (Some X)) N"
proof (rule inj_onI)
  fix x y assume x: "x \<in> N" and y: "y \<in> N"
    and eq: "displayName (Some X) x = displayName (Some X) y"
  show "x = y"
  proof (cases "x = X")
    case True
    show ?thesis
    proof (cases "y = X")
      case True
      with \<open>x = X\<close> show ?thesis by simp
    next
      case False
      then have "displayName (Some X) y = y" by (simp add: displayName_def)
      moreover have "displayName (Some X) x = X @ '' - Default''"
        using \<open>x = X\<close> by (simp add: displayName_def)
      ultimately have "y = X @ '' - Default''" using eq by simp
      with y assms show ?thesis by simp
    qed
  next
    case False
    then have dx: "displayName (Some X) x = x" by (simp add: displayName_def)
    show ?thesis
    proof (cases "y = X")
      case True
      then have "displayName (Some X) y = X @ '' - Default''" by (simp add: displayName_def)
      with dx eq have "x = X @ '' - Default''" by simp
      with x assms show ?thesis by simp
    next
      case False
      then have "displayName (Some X) y = y" by (simp add: displayName_def)
      with dx eq show ?thesis by simp
    qed
  qed
qed

lemma displayName_None_inj: "inj_on (displayName None) N"
  by (rule inj_onI) (simp add: displayName_def)

lemma default_not_proto: "X @ '' - Default'' \<noteq> ''__proto__''"
proof
  assume "X @ '' - Default'' = ''__proto__''"
  then have "last (X @ '' - Default'') = last ''__proto__''" by simp
  then show False by simp
qed

lemma antCommand_parseString: "antCommand (h \<lparr> parseString := p \<rparr>) = antCommand h"
  by (simp add: antCommand_def)

lemma ansiconExecutable_parseString:
  "ansiconExecutable (h \<lparr> parseString := p \<rparr>) = ansiconExecutable h"
  by (simp add: ansiconExecutable_def pathExists_def Let_def)

lemma createAntTask_parseString: "createAntTask (h \<lparr> parseString := p \<rparr>) = createAntTask h"
  by (intro ext)
     (simp add: createAntTask_def Let_def antCommand_parseString ansiconExecutable_parseString)

lemma image_filter_script:
  assumes "\<And>n. f (g n) = Some n"
  shows "{t \<in> g ` A. f t \<noteq> Some X} = g ` {n \<in> A. n \<noteq> X}"
  using assms by auto

text \<open>
  C5, as the code has it. For an Ant file whose project declares the default target
  \<open>X\<close>, where \<open>X\<close> is one of its targets and no target is named \<open>X - Default\<close>,
  the descriptor that runs \<open>X\<close> exists and is displayed as \<open>X - Default\<close>, and the
  descriptors of the other targets are those of the same file without the \<open>default\<close>
  attribute (the project element keeping its other attributes). The task definition
  has no field that marks the default target; the display name is the only mark.
\<close>

theorem ant_default_target:
  assumes fl: "files h (fsPath uri) = Some c"
    and folder: "getWorkspaceFolder h uri = Some folder"
    and parse: "parseString h c = XmlOk (JsonRoot (Some prj))"
    and attrs: "prj_attrs prj = Some a"
    and dflt: "map_of a ''default'' = Some X"
    and tgts: "prj_target prj = Some targets"
    and X: "X \<in> set (targetNames targets)"
    and free: "X @ '' - Default'' \<notin> set (targetNames targets)"
    and plain: "map_of a' ''default'' = None"
    and h': "h' = h \<lparr> parseString :=
               (parseString h)(c := XmlOk (JsonRoot (Some (prj \<lparr> prj_attrs := Some a' \<rparr>)))) \<rparr>"
  shows "\<exists>tasks tasks'.
           readAntfile h uri = Inr tasks \<and> readAntfile h' uri = Inr tasks' \<and>
           (\<exists>t \<in> set tasks. def_script (task_definition t) = Some X \<and>
                             task_name t = X @ '' - Default'') \<and>
           (\<forall>t \<in> set tasks. def_script (task_definition t) = Some X \<longrightarrow>
                             task_name t = X @ '' - Default'') \<and>
           {t \<in> set tasks. def_script (task_definition t) \<noteq> Some X} =
           {t \<in> set tasks'. def_script (task_definition t) \<noteq> Some X}"
proof -
  let ?N = "set (targetNames targets)"
  let ?mk = "\<lambda>d n. (createAntTask h n (displayName d n) folder uri) \<lparr> task_isBuild := True \<rparr>"
  have inj: "inj_on (displayName (map_of a ''default'')) ?N"
    unfolding dflt using free by (rule displayName_inj)
  from readAntfile_set[OF fl folder parse attrs tgts inj] obtain tasks where
    r: "readAntfile h uri = Inr tasks" and
    s: "set tasks = ?mk (Some X) ` {n \<in> ?N. displayName (Some X) n \<noteq> ''__proto__''}"
    unfolding dflt by blast
  have mk': "createAntTask h' = createAntTask h"
    unfolding h' by (rule createAntTask_parseString)
  have inj': "inj_on (displayName (map_of a' ''default'')) ?N"
    unfolding plain by (rule displayName_None_inj)
  have "\<exists>tasks. readAntfile h' uri = Inr tasks \<and>
           set tasks =
             (\<lambda>n. (createAntTask h' n (displayName (map_of a' ''default'') n) folder uri)
                     \<lparr> task_isBuild := True \<rparr>) `
               {n \<in> ?N. displayName (map_of a' ''default'') n \<noteq> ''__proto__''}"
    by (rule readAntfile_set[where c = c and prj = "prj \<lparr> prj_attrs := Some a' \<rparr>"])
       (simp_all add: h' fl folder tgts inj')
  then obtain tasks' where
    r': "readAntfile h' uri = Inr tasks'" and
    s': "set tasks' = ?mk None ` {n \<in> ?N. displayName None n \<noteq> ''__proto__''}"
    unfolding plain mk' by blast
  have script: "def_script (task_definition (?mk d n)) = Some n" for d n
    by (simp add: createAntTask_def Let_def)
  have name: "task_name (?mk d n) = displayName d n" if "n \<noteq> []" for d n
    using that by (simp add: createAntTask_def Let_def displayName_def)
  have dX: "displayName (Some X) X = X @ '' - Default''" by (simp add: displayName_def)
  have Xne: "X \<noteq> []" using X by (rule targetNames_nonempty)
  have "X \<in> {n \<in> ?N. displayName (Some X) n \<noteq> ''__proto__''}"
    using X dX default_not_proto by simp
  then have "?mk (Some X) X \<in> set tasks"
    unfolding s by (rule imageI)
  moreover have "def_script (task_definition (?mk (Some X) X)) = Some X" by (rule script)
  moreover have nX: "task_name (?mk (Some X) X) = X @ '' - Default''"
    unfolding dX[symmetric] by (rule name[OF Xne])
  ultimately have one: "\<exists>t \<in> set tasks. def_script (task_definition t) = Some X \<and>
                             task_name t = X @ '' - Default''"
    by blast
  have all: "\<forall>t \<in> set tasks. def_script (task_definition t) = Some X \<longrightarrow>
                             task_name t = X @ '' - Default''"
  proof (intro ballI impI)
    fix t assume "t \<in> set tasks" "def_script (task_definition t) = Some X"
    then obtain n where "t = ?mk (Some X) n" "n \<in> ?N" unfolding s by blast
    moreover have "def_script (task_definition (?mk (Some X) n)) = Some n" by (rule script)
    ultimately have "n = X" using \<open>def_script (task_definition t) = Some X\<close> by simp
    with \<open>t = ?mk (Some X) n\<close> nX show "task_name t = X @ '' - Default''" by simp
  qed
  have same: "?mk (Some X) n = ?mk None n" if "n \<noteq> X" for n
    using that by (simp add: displayName_def)
  have "{t \<in> set tasks. def_script (task_definition t) \<noteq> Some X} =
        ?mk (Some X) ` {n \<in> {n \<in> ?N. displayName (Some X) n \<noteq> ''__proto__''}. n \<noteq> X}"
    unfolding s by (rule image_filter_script) (rule script)
  also have "{n \<in> {n \<in> ?N. displayName (Some X) n \<noteq> ''__proto__''}. n \<noteq> X} =
             {n \<in> {n \<in> ?N. displayName None n \<noteq> ''__proto__''}. n \<noteq> X}"
    by (auto simp: displayName_def)
  also have "?mk (Some X) ` {n \<in> {n \<in> ?N. displayName None n \<noteq> ''__proto__''}. n \<noteq> X} =
             ?mk None ` {n \<in> {n \<in> ?N. displayName None n \<noteq> ''__proto__''}. n \<noteq> X}"
    using same by (intro image_cong) simp_all
  also have "\<dots> = {t \<in> set tasks'. def_script (task_definition t) \<noteq> Some X}"
    unfolding s' by (rule image_filter_script[symmetric]) (rule script)
  finally have eq: "{t \<in> set tasks. def_script (task_definition t) \<noteq> Some X} =
                    {t \<in> set tasks'. def_script (task_definition t) \<noteq> Some X}" .
  show ?thesis
    by (intro exI[of _ tasks] exI[of _ tasks'] conjI) (rule r, rule r', rule one, rule all, rule eq)
qed


theorem ant_default_target_witness:
  "\<exists>tasks tasks'.
     readAntfile sampleHost (fileUri ''/ws/build.xml'') = Inr tasks \<and>
     readAntfile
       (sampleHost \<lparr> parseString := (parseString sampleHost)
          (antText := XmlOk (JsonRoot (Some (antProject \<lparr> prj_attrs := Some [(''name'', ''demo'')] \<rparr>)))) \<rparr>)
       (fileUri ''/ws/build.xml'') = Inr tasks' \<and>
     (\<exists>t \<in> set tasks. def_script (task_definition t) = Some ''dist'' \<and>
                       task_name t = ''dist'' @ '' - Default'') \<and>
     (\<forall>t \<in> set tasks. def_script (task_definition t) = Some ''dist'' \<longrightarrow>
                       task_name t = ''dist'' @ '' - Default'') \<and>
     {t \<in> set tasks. def_script (task_definition t) \<noteq> Some ''dist''} =
     {t \<in> set tasks'. def_script (task_definition t) \<noteq> Some ''dist''}"
  by (rule ant_default_target[where c = antText and prj = antProject and
        a = "[(''name'', ''demo''), (''default'', ''dist'')]" and a' = "[(''name'', ''demo'')]" and
        folder = sampleFolder and
        targets = "[\<lparr> tgt_attrs = Some [(''name'', ''compile'')] \<rparr>,
                    \<lparr> tgt_attrs = Some [(''name'', ''dist'')] \<rparr>]"])
     (simp_all add: sample_defs startsWith_def)

text \<open>
  The claim as the spec words it fails on \<open>clashText\<close>: the default target takes the
  display name \<open>dist - Default\<close>, which is the key of the other target, and that
  target loses its descriptor; without the \<open>default\<close> attribute both targets have
  one.
\<close>

theorem ant_default_target_counterexample:
  "map_sum id (map (\<lambda>t. (task_name t, def_script (task_definition t))))
     (readAntfile sampleHost (fileUri ''/ws/clash/build.xml'')) =
   Inr [(''dist - Default'', Some ''dist'')] \<and>
   map_sum id (map (\<lambda>t. (task_name t, def_script (task_definition t))))
     (readAntfile sampleHost (fileUri ''/ws/plain/build.xml'')) =
   Inr [(''dist - Default'', Some ''dist - Default''), (''dist'', Some ''dist'')]"
  by (simp add: ant_defs sample_defs object_defs string_defs Let_def)

section \<open>Properties of the Gradle detector\<close>

declare findTargetsLoop.simps [simp del]

lemma findSub_char_notin: "c \<notin> set s \<Longrightarrow> findSub [c] s k = None"
  by (induction s arbitrary: k) auto

lemma findSub_char_first: "c \<notin> set l \<Longrightarrow> findSub [c] (l @ c # post) k = Some (k + length l)"
  by (induction l arbitrary: k) auto

lemma indexOf_char_first:
  "c \<notin> set l \<Longrightarrow> indexOf (pre @ l @ c # post) [c] (length pre) = Some (length pre + length l)"
  by (simp add: indexOf_def findSub_char_first)

lemma indexOf_char_none:
  "c \<notin> set l \<Longrightarrow> indexOf (pre @ l) [c] (length pre) = None"
  by (simp add: indexOf_def findSub_char_notin)

lemma substring_middle:
  "substring (pre @ l @ post) (length pre) (length pre + length l) = l"
  by (simp add: substring_def min_def max_def)

lemma findTargetsLoop_step:
  assumes "CHR 0x0A \<notin> set l"
  shows "findTargetsLoop (pre @ l @ CHR 0x0A # post) (length pre) sc =
         findTargetsLoop (pre @ l @ CHR 0x0A # post) (length pre + length l + 1) (gradleLine l sc)"
  using assms
  by (subst findTargetsLoop.simps) (simp add: indexOf_char_first substring_middle)

lemma findTargetsLoop_end:
  assumes "CHR 0x0A \<notin> set t"
  shows "findTargetsLoop (pre @ t) (length pre) sc = sc"
  using assms
  by (subst findTargetsLoop.simps) (simp add: indexOf_char_none)

definition joinLines :: "string list \<Rightarrow> string" where
  "joinLines ls = concat (map (\<lambda>l. l @ [CHR 0x0A]) ls)"

lemma findTargetsLoop_lines:
  assumes "\<forall>l \<in> set ls. CHR 0x0A \<notin> set l" and "CHR 0x0A \<notin> set t"
  shows "findTargetsLoop (pre @ joinLines ls @ t) (length pre) sc = fold gradleLine ls sc"
  using assms(1)
proof (induction ls arbitrary: pre sc)
  case Nil
  then show ?case using assms(2) by (simp add: joinLines_def findTargetsLoop_end)
next
  case (Cons l ls)
  have nl: "CHR 0x0A \<notin> set l" using Cons.prems by simp
  have "findTargetsLoop (pre @ joinLines (l # ls) @ t) (length pre) sc =
        findTargetsLoop (pre @ l @ CHR 0x0A # (joinLines ls @ t)) (length pre) sc"
    by (simp add: joinLines_def)
  also have "\<dots> = findTargetsLoop (pre @ l @ CHR 0x0A # (joinLines ls @ t))
                     (length pre + length l + 1) (gradleLine l sc)"
    by (rule findTargetsLoop_step[OF nl])
  also have "\<dots> = findTargetsLoop ((pre @ l @ [CHR 0x0A]) @ joinLines ls @ t)
                     (length (pre @ l @ [CHR 0x0A])) (gradleLine l sc)"
    by simp
  also have "\<dots> = fold gradleLine ls (gradleLine l sc)"
    using Cons.prems by (intro Cons.IH) simp
  finally show ?case by simp
qed

lemma split_lines:
  "\<exists>ls t. s = joinLines ls @ t \<and> (\<forall>l \<in> set ls. CHR 0x0A \<notin> set l) \<and> CHR 0x0A \<notin> set t"
proof (induction s rule: rev_induct)
  case Nil
  have "[] = joinLines [] @ []" by (simp add: joinLines_def)
  then show ?case by (metis empty_iff list.set(1))
next
  case (snoc x xs)
  then obtain ls t where xs: "xs = joinLines ls @ t" and
    ls: "\<forall>l \<in> set ls. CHR 0x0A \<notin> set l" and t: "CHR 0x0A \<notin> set t"
    by blast
  show ?case
  proof (cases "x = CHR 0x0A")
    case True
    have "xs @ [x] = joinLines (ls @ [t]) @ []"
      using xs True by (simp add: joinLines_def)
    moreover have "\<forall>l \<in> set (ls @ [t]). CHR 0x0A \<notin> set l" using ls t by simp
    ultimately show ?thesis by (metis empty_iff list.set(1))
  next
    case False
    have "xs @ [x] = joinLines ls @ (t @ [x])" using xs by simp
    moreover have "CHR 0x0A \<notin> set (t @ [x])" using t False by simp
    ultimately show ?thesis using ls by blast
  qed
qed

lemma findTargetsLoop_unterminated:
  assumes "CHR 0x0A \<notin> set l"
  shows "findTargetsLoop (pre @ l) 0 sc = findTargetsLoop pre 0 sc"
proof -
  obtain ls t where pre: "pre = joinLines ls @ t" and
    ls: "\<forall>l \<in> set ls. CHR 0x0A \<notin> set l" and t: "CHR 0x0A \<notin> set t"
    using split_lines by blast
  have "findTargetsLoop ([] @ joinLines ls @ (t @ l)) (length ([]::string)) sc = fold gradleLine ls sc"
    using ls t assms by (intro findTargetsLoop_lines) simp_all
  moreover have "findTargetsLoop ([] @ joinLines ls @ t) (length ([]::string)) sc = fold gradleLine ls sc"
    using ls t by (intro findTargetsLoop_lines) simp_all
  ultimately show ?thesis using pre by simp
qed

lemma lowerChar_cases:
  "lowerChar c = c \<or> lowerChar c \<in> set lowerLetters"
proof (cases "map_of (zip upperLetters lowerLetters) c")
  case None
  then show ?thesis by (simp add: lowerChar_def)
next
  case (Some d)
  then have "(c, d) \<in> set (zip upperLetters lowerLetters)"
    by (rule map_of_SomeD)
  then have "d \<in> set lowerLetters"
    by (rule set_zip_rightD)
  with Some show ?thesis by (simp add: lowerChar_def)
qed

lemma lowerChar_space: "lowerChar c = CHR '' '' \<Longrightarrow> c = CHR '' ''"
proof -
  assume a: "lowerChar c = CHR '' ''"
  have "CHR '' '' \<notin> set lowerLetters" by (simp add: lowerLetters_def)
  with a lowerChar_cases[of c] show ?thesis by auto
qed

lemma lowerChar_whitespace: "isWhiteSpace c \<Longrightarrow> lowerChar c = c"
  apply (simp add: isWhiteSpace_def)
  apply (elim disjE)
  apply (simp_all add: lowerChar_def upperLetters_def lowerLetters_def)
  done

lemma lowerChar_letter:
  assumes "lowerChar c = x" and "x \<in> set ''abcdefghijklmnopqrstuvwxyz''"
  shows "\<not> isWhiteSpace c"
proof
  assume "isWhiteSpace c"
  then have "lowerChar c = c" by (rule lowerChar_whitespace)
  with assms have "isWhiteSpace x" using \<open>isWhiteSpace c\<close> by simp
  moreover have "\<forall>y \<in> set ''abcdefghijklmnopqrstuvwxyz''. \<not> isWhiteSpace y"
    by (simp add: isWhiteSpace_def)
  ultimately show False using assms(2) by blast
qed

lemma task_keyword:
  assumes "toLowerCase kw = ''task ''"
  shows "\<exists>a b c d. kw = [a, b, c, d, CHR '' ''] \<and> \<not> isWhiteSpace a \<and>
           \<not> isWhiteSpace b \<and> \<not> isWhiteSpace c \<and> \<not> isWhiteSpace d"
proof -
  from assms have "length (toLowerCase kw) = length ''task ''" by simp
  then have "length kw = Suc (Suc (Suc (Suc (Suc 0))))" by (simp add: toLowerCase_def)
  then obtain a b c d e where kw: "kw = [a, b, c, d, e]"
    by (auto simp: length_Suc_conv)
  with assms have l: "lowerChar a = CHR ''t''" "lowerChar b = CHR ''a''" "lowerChar c = CHR ''s''"
    "lowerChar d = CHR ''k''" "lowerChar e = CHR '' ''"
    by (simp_all add: toLowerCase_def)
  have "\<not> isWhiteSpace a" using lowerChar_letter[OF l(1)] by simp
  moreover have "\<not> isWhiteSpace b" using lowerChar_letter[OF l(2)] by simp
  moreover have "\<not> isWhiteSpace c" using lowerChar_letter[OF l(3)] by simp
  moreover have "\<not> isWhiteSpace d" using lowerChar_letter[OF l(4)] by simp
  moreover have "e = CHR '' ''" using l(5) by (rule lowerChar_space)
  ultimately show ?thesis using kw by blast
qed


lemma trimLeft_nonspace: "\<not> isWhiteSpace a \<Longrightarrow> trimLeft (a # s) = a # s"
  by (simp add: trimLeft_def)

lemma indexOf_space_task:
  assumes "\<not> isWhiteSpace a" "\<not> isWhiteSpace b" "\<not> isWhiteSpace c" "\<not> isWhiteSpace d"
  shows "indexOf ([a, b, c, d, CHR '' ''] @ rest) '' '' 0 = Some 4"
proof -
  have "isWhiteSpace (CHR '' '')" by (simp add: isWhiteSpace_def)
  with assms have "a \<noteq> CHR '' ''" "b \<noteq> CHR '' ''" "c \<noteq> CHR '' ''" "d \<noteq> CHR '' ''"
    by auto
  then show ?thesis by (simp add: indexOf_def)
qed

lemma indexOf_char_notin: "c \<notin> set s \<Longrightarrow> indexOf s [c] i = None"
proof -
  assume "c \<notin> set s"
  then have "c \<notin> set (drop i s)" by (meson in_set_dropD)
  then show ?thesis by (simp add: indexOf_def findSub_char_notin)
qed

lemma gradleLine_found:
  assumes line: "trim raw = kw @ nm @ d # aft"
    and kw: "toLowerCase kw = ''task ''"
    and d: "d = CHR ''('' \<or> d = CHR ''{''"
    and nm: "CHR ''('' \<notin> set nm" "CHR ''{'' \<notin> set nm"
    and aft: "d = CHR ''{'' \<longrightarrow> CHR ''('' \<notin> set aft"
    and name: "trim nm \<noteq> []"
  shows "gradleLine raw sc = objSet sc (trim nm) []"
proof -
  from task_keyword[OF kw] obtain a b c e where
    k: "kw = [a, b, c, e, CHR '' '']" and
    ws: "\<not> isWhiteSpace a" "\<not> isWhiteSpace b" "\<not> isWhiteSpace c" "\<not> isWhiteSpace e"
    by blast
  let ?rest = "nm @ d # aft"
  let ?line = "trim raw"
  have l: "?line = [a, b, c, e, CHR '' ''] @ ?rest" using line k by simp
  have ne: "?line \<noteq> []" using l by simp
  have low: "toLowerCase ?line = ''task '' @ toLowerCase ?rest"
    using line kw by (simp add: toLowerCase_def)
  have "\<not> isWhiteSpace (CHR ''t'')" by (simp add: isWhiteSpace_def)
  then have "trimLeft (toLowerCase ?line) = ''task '' @ toLowerCase ?rest"
    unfolding low by (simp add: trimLeft_def)
  then have sw: "startsWith (trimLeft (toLowerCase ?line)) ''task ''"
    by (simp add: startsWith_def)
  have tl: "trimLeft ?line = ?line" using l ws(1) by (simp add: trimLeft_def)
  have "indexOf ?line '' '' 0 = Some 4"
    unfolding l by (rule indexOf_space_task[OF ws])
  then have i1: "indexOf (trimLeft ?line) '' '' 0 = Some 4"
    by (simp only: tl)
  have len: "length kw = 5" using k by simp
  have i2: "(case indexOf ?line ''('' (4 + 1) of
               None \<Rightarrow> indexOf ?line ''{'' (4 + 1)
             | Some k \<Rightarrow> Some k) = Some (5 + length nm)"
  proof (cases "d = CHR ''(''")
    case True
    have "indexOf (kw @ nm @ CHR ''('' # aft) ''('' (length kw) = Some (length kw + length nm)"
      using nm(1) by (rule indexOf_char_first)
    with True line len show ?thesis by simp
  next
    case False
    with d have dd: "d = CHR ''{''" by simp
    with aft have "CHR ''('' \<notin> set (nm @ d # aft)" using nm(1) by simp
    then have "indexOf (kw @ (nm @ d # aft)) ''('' (length kw) = None"
      by (rule indexOf_char_none)
    moreover have "indexOf (kw @ nm @ CHR ''{'' # aft) ''{'' (length kw) = Some (length kw + length nm)"
      using nm(2) by (rule indexOf_char_first)
    ultimately show ?thesis using dd line len by simp
  qed
  have sub: "substring ?line (4 + 1) (5 + length nm) = nm"
    using substring_middle[of kw nm "d # aft"] line len by simp
  show ?thesis
    unfolding gradleLine_def Let_def
    using ne sw i1 i2 sub name by simp
qed

lemma set_trim_subset: "set (trim s) \<subseteq> set s"
proof -
  have "set (trimRight s) \<subseteq> set s"
    unfolding trimRight_def using set_dropWhileD by fastforce
  moreover have "set (trimLeft (trimRight s)) \<subseteq> set (trimRight s)"
    unfolding trimLeft_def using set_dropWhileD by fastforce
  ultimately show ?thesis by (simp add: trim_def)
qed

lemma gradleLine_no_delimiter:
  assumes "CHR ''('' \<notin> set raw" and "CHR ''{'' \<notin> set raw"
  shows "gradleLine raw sc = sc"
proof -
  have "CHR ''('' \<notin> set (trim raw)" "CHR ''{'' \<notin> set (trim raw)"
    using assms set_trim_subset by blast+
  then have "\<And>i. indexOf (trim raw) ''('' i = None" "\<And>i. indexOf (trim raw) ''{'' i = None"
    by (simp_all add: indexOf_char_notin)
  then show ?thesis
    by (simp add: gradleLine_def Let_def split: option.splits)
qed

lemma gradleLine_keys: "fst ` set sc \<subseteq> fst ` set (gradleLine raw sc)"
  by (auto simp: gradleLine_def Let_def objSet_keys split: option.splits)

lemma fold_gradleLine_keys: "fst ` set sc \<subseteq> fst ` set (fold gradleLine ls sc)"
proof (induction ls arbitrary: sc)
  case Nil
  then show ?case by simp
next
  case (Cons l ls)
  have "fst ` set sc \<subseteq> fst ` set (gradleLine l sc)" by (rule gradleLine_keys)
  also have "\<dots> \<subseteq> fst ` set (fold gradleLine ls (gradleLine l sc))" by (rule Cons.IH)
  finally show ?case by simp
qed

lemma joinLines_append: "joinLines (a @ b) = joinLines a @ joinLines b"
  by (simp add: joinLines_def)

lemma split_terminated:
  assumes "pre = [] \<or> last pre = CHR 0x0A"
  shows "\<exists>ls. pre = joinLines ls \<and> (\<forall>l \<in> set ls. CHR 0x0A \<notin> set l)"
proof -
  obtain ls t where pre: "pre = joinLines ls @ t" and
    ls: "\<forall>l \<in> set ls. CHR 0x0A \<notin> set l" and t: "CHR 0x0A \<notin> set t"
    using split_lines by blast
  have "t = []"
  proof (rule ccontr)
    assume "t \<noteq> []"
    then have "last pre = last t" "pre \<noteq> []" using pre by simp_all
    with assms have "last t = CHR 0x0A" by simp
    with \<open>t \<noteq> []\<close> t show False using last_in_set by metis
  qed
  with pre ls show ?thesis by auto
qed

lemma findTargetsLoop_line:
  assumes "pre = [] \<or> last pre = CHR 0x0A" and "CHR 0x0A \<notin> set raw"
  shows "\<exists>sc ls. findTargetsLoop (pre @ raw @ CHR 0x0A # post) 0 [] =
                    fold gradleLine ls (gradleLine raw sc) \<and>
                 findTargetsLoop (pre @ post) 0 [] = fold gradleLine ls sc"
proof -
  obtain ls1 where pre: "pre = joinLines ls1" and ls1: "\<forall>l \<in> set ls1. CHR 0x0A \<notin> set l"
    using split_terminated[OF assms(1)] by blast
  obtain ls2 t where post: "post = joinLines ls2 @ t" and
    ls2: "\<forall>l \<in> set ls2. CHR 0x0A \<notin> set l" and t: "CHR 0x0A \<notin> set t"
    using split_lines by blast
  have "pre @ raw @ CHR 0x0A # post = [] @ joinLines (ls1 @ raw # ls2) @ t"
    using pre post by (simp add: joinLines_def)
  moreover have "findTargetsLoop ([] @ joinLines (ls1 @ raw # ls2) @ t) (length ([]::string)) [] =
                 fold gradleLine (ls1 @ raw # ls2) []"
    using ls1 ls2 t assms(2) by (intro findTargetsLoop_lines) auto
  ultimately have a: "findTargetsLoop (pre @ raw @ CHR 0x0A # post) 0 [] =
                      fold gradleLine ls2 (gradleLine raw (fold gradleLine ls1 []))"
    by simp
  have "pre @ post = [] @ joinLines (ls1 @ ls2) @ t"
    using pre post by (simp add: joinLines_def)
  moreover have "findTargetsLoop ([] @ joinLines (ls1 @ ls2) @ t) (length ([]::string)) [] =
                 fold gradleLine (ls1 @ ls2) []"
    using ls1 ls2 t by (intro findTargetsLoop_lines) auto
  ultimately have b: "findTargetsLoop (pre @ post) 0 [] = fold gradleLine ls2 (fold gradleLine ls1 [])"
    by simp
  from a b show ?thesis by blast
qed

text \<open>
  C6, as the code has it. A line that ends in a newline and, once trimmed, starts
  with \<open>task\<close> and a space in any letter case, then has a name and a delimiter
  \<open>(\<close> or \<open>{\<close>, gives a descriptor named by the trimmed text between the keyword
  and the delimiter, with that name as its only argument; the name must not be empty
  (nor the reserved key \<open>__proto__\<close>). The statement covers the lines in which no
  \<open>(\<close> follows a delimiter \<open>{\<close>. A line with neither \<open>(\<close> nor \<open>{\<close> contributes
  nothing: the file yields what it yields without that line.
\<close>

theorem gradle_task_line:
  assumes fl: "files h (fsPath uri) = Some (pre @ raw @ CHR 0x0A # post)"
    and pre: "pre = [] \<or> last pre = CHR 0x0A"
    and raw: "CHR 0x0A \<notin> set raw"
    and folder: "getWorkspaceFolder h uri = Some folder"
  shows "(trim raw = kw @ nm @ d # aft \<and> toLowerCase kw = ''task '' \<and>
          (d = CHR ''('' \<or> d = CHR ''{'') \<and> CHR ''('' \<notin> set nm \<and> CHR ''{'' \<notin> set nm \<and>
          (d = CHR ''{'' \<longrightarrow> CHR ''('' \<notin> set aft) \<and>
          trim nm \<noteq> [] \<and> trim nm \<noteq> ''__proto__''
          \<longrightarrow> (\<exists>tasks t. readGradlefile h uri = Inr tasks \<and> t \<in> set tasks \<and>
                 task_name t = trim nm \<and> se_args (task_execution t) = [trim nm])) \<and>
         (CHR ''('' \<notin> set raw \<and> CHR ''{'' \<notin> set raw
          \<longrightarrow> readGradlefile h uri =
              readGradlefile (h\<lparr> files := (files h)(fsPath uri \<mapsto> pre @ post) \<rparr>) uri)"
proof (intro conjI impI)
  assume a: "trim raw = kw @ nm @ d # aft \<and> toLowerCase kw = ''task '' \<and>
          (d = CHR ''('' \<or> d = CHR ''{'') \<and> CHR ''('' \<notin> set nm \<and> CHR ''{'' \<notin> set nm \<and>
          (d = CHR ''{'' \<longrightarrow> CHR ''('' \<notin> set aft) \<and>
          trim nm \<noteq> [] \<and> trim nm \<noteq> ''__proto__''"
  obtain sc ls where
    l: "findTargetsLoop (pre @ raw @ CHR 0x0A # post) 0 [] = fold gradleLine ls (gradleLine raw sc)"
    using findTargetsLoop_line[OF pre raw] by blast
  have "gradleLine raw sc = objSet sc (trim nm) []"
    using a by (intro gradleLine_found[of raw kw nm d aft]) simp_all
  then have "trim nm \<in> fst ` set (gradleLine raw sc)"
    using a by (simp add: objSet_keys)
  then have "trim nm \<in> fst ` set (fold gradleLine ls (gradleLine raw sc))"
    using fold_gradleLine_keys by blast
  then have k: "trim nm \<in> set (objectKeys (findTargetsLoop (pre @ raw @ CHR 0x0A # post) 0 []))"
    by (simp add: l objectKeys_set)
  let ?tasks = "map (\<lambda>each. (createGradleTask h each each folder uri) \<lparr> task_isBuild := True \<rparr>)
                    (objectKeys (findTargetsLoop (pre @ raw @ CHR 0x0A # post) 0 []))"
  let ?t = "(createGradleTask h (trim nm) (trim nm) folder uri) \<lparr> task_isBuild := True \<rparr>"
  have "readGradlefile h uri = Inr ?tasks"
    using fl folder by (simp add: readGradlefile_def findTargets_def readFile_def)
  moreover have "?t \<in> set ?tasks" using k by auto
  moreover have "task_name ?t = trim nm" "se_args (task_execution ?t) = [trim nm]"
    by (simp_all add: createGradleTask_def Let_def)
  ultimately show "\<exists>tasks t. readGradlefile h uri = Inr tasks \<and> t \<in> set tasks \<and>
                 task_name t = trim nm \<and> se_args (task_execution t) = [trim nm]"
    by blast
next
  assume a: "CHR ''('' \<notin> set raw \<and> CHR ''{'' \<notin> set raw"
  obtain sc ls where
    l: "findTargetsLoop (pre @ raw @ CHR 0x0A # post) 0 [] = fold gradleLine ls (gradleLine raw sc)"
    and m: "findTargetsLoop (pre @ post) 0 [] = fold gradleLine ls sc"
    using findTargetsLoop_line[OF pre raw] by blast
  have "gradleLine raw sc = sc" using a by (simp add: gradleLine_no_delimiter)
  with l m have "findTargetsLoop (pre @ raw @ CHR 0x0A # post) 0 [] = findTargetsLoop (pre @ post) 0 []"
    by simp
  then show "readGradlefile h uri =
              readGradlefile (h\<lparr> files := (files h)(fsPath uri \<mapsto> pre @ post) \<rparr>) uri"
    using fl folder
    by (simp add: readGradlefile_def findTargets_def readFile_def createGradleTask_def gradleCommand_def)
qed


theorem gradle_task_line_witness:
  "(\<exists>tasks t. readGradlefile sampleHost (fileUri ''/ws/app/build.gradle'') = Inr tasks \<and>
      t \<in> set tasks \<and> task_name t = ''compile'' \<and>
      se_args (task_execution t) = [''compile'']) \<and>
   readGradlefile sampleHost (fileUri ''/ws/app/build.gradle'') =
   readGradlefile
     (sampleHost\<lparr> files := (files sampleHost)(''/ws/app/build.gradle'' \<mapsto>
        ''task compile(type: Exec) {'' @ [CHR 0x0A] @ ''task pack {'' @ [CHR 0x0A] @
        ''task deploy {'') \<rparr>)
     (fileUri ''/ws/app/build.gradle'')"
proof
  have f: "files sampleHost (fsPath (fileUri ''/ws/app/build.gradle'')) =
        Some ([] @ ''task compile(type: Exec) {'' @ CHR 0x0A #
              (''task docs'' @ [CHR 0x0A] @ ''task pack {'' @ [CHR 0x0A] @ ''task deploy {''))"
    by (simp add: sample_defs)
  have g: "getWorkspaceFolder sampleHost (fileUri ''/ws/app/build.gradle'') = Some sampleFolder"
    by (simp add: sample_defs startsWith_def)
  have p: "([]::string) = [] \<or> last ([]::string) = CHR 0x0A" by simp
  have r: "CHR 0x0A \<notin> set ''task compile(type: Exec) {''" by simp
  have t: "trim ''task compile(type: Exec) {'' = ''task '' @ ''compile'' @ CHR ''('' # ''type: Exec) {''"
    by (simp add: string_defs)
  have n: "trim ''compile'' = ''compile''" by (simp add: string_defs)
  have k: "toLowerCase ''task '' = ''task ''" by (simp add: string_defs)
  from gradle_task_line[OF f p r g, of "''task ''" "''compile''" "CHR ''(''" "''type: Exec) {''"]
  show "\<exists>tasks t. readGradlefile sampleHost (fileUri ''/ws/app/build.gradle'') = Inr tasks \<and>
      t \<in> set tasks \<and> task_name t = ''compile'' \<and>
      se_args (task_execution t) = [''compile'']"
    using t n k by simp
next
  have f: "files sampleHost (fsPath (fileUri ''/ws/app/build.gradle'')) =
        Some ((''task compile(type: Exec) {'' @ [CHR 0x0A]) @ ''task docs'' @ CHR 0x0A #
              (''task pack {'' @ [CHR 0x0A] @ ''task deploy {''))"
    by (simp add: sample_defs)
  have g: "getWorkspaceFolder sampleHost (fileUri ''/ws/app/build.gradle'') = Some sampleFolder"
    by (simp add: sample_defs startsWith_def)
  have p: "''task compile(type: Exec) {'' @ [CHR 0x0A] = [] \<or>
           last (''task compile(type: Exec) {'' @ [CHR 0x0A]) = CHR 0x0A" by simp
  have r: "CHR 0x0A \<notin> set ''task docs''" by simp
  from gradle_task_line[OF f p r g, of "[]" "[]" "CHR ''(''" "[]"]
  show "readGradlefile sampleHost (fileUri ''/ws/app/build.gradle'') =
   readGradlefile
     (sampleHost\<lparr> files := (files sampleHost)(''/ws/app/build.gradle'' \<mapsto>
        ''task compile(type: Exec) {'' @ [CHR 0x0A] @ ''task pack {'' @ [CHR 0x0A] @
        ''task deploy {'') \<rparr>)
     (fileUri ''/ws/app/build.gradle'')"
    by (simp add: fileUri_def)
qed

text \<open>
  The claim as the spec words it fails on the last line of \<open>gradleText\<close>: the line
  \<open>task deploy {\<close> is a well-formed declaration, and no descriptor is emitted for it,
  because no newline follows it.
\<close>

theorem gradle_task_line_counterexample:
  "map_sum id (map (\<lambda>t. (task_name t, se_args (task_execution t))))
     (readGradlefile sampleHost (fileUri ''/ws/app/build.gradle'')) =
   Inr [(''compile'', [''compile'']), (''pack'', [''pack''])]"
  by (simp add: gradle_defs sample_defs object_defs string_defs Let_def)

text \<open>
  Where a \<open>{\<close> comes before the first \<open>(\<close> of the line, the scanner takes the text
  up to the \<open>(\<close> as the name.
\<close>

lemma gradle_brace_before_paren:
  "findTargetsLoop (''task foo { println(1) }'' @ [CHR 0x0A]) 0 [] = [(''foo { println'', [])]"
  by (simp add: gradle_defs object_defs string_defs Let_def)

text \<open>
  C10. The scanner reads the file up to its last newline: the text after it, a
  declaration included, has no effect on the descriptors of the file.
\<close>

theorem gradle_unterminated_last_line:
  assumes "CHR 0x0A \<notin> set l" and "files h (fsPath uri) = Some (pre @ l)"
  shows "readGradlefile h uri = readGradlefile (h\<lparr> files := (files h)(fsPath uri \<mapsto> pre) \<rparr>) uri"
proof -
  have "findTargetsLoop (pre @ l) 0 [] = findTargetsLoop pre 0 []"
    using assms(1) by (rule findTargetsLoop_unterminated)
  then show ?thesis
    using assms(2)
    by (simp add: readGradlefile_def findTargets_def readFile_def createGradleTask_def
        gradleCommand_def split: option.splits)
qed


theorem gradle_unterminated_last_line_witness:
  "map_sum id (map task_name) (readGradlefile sampleHost (fileUri ''/ws/app/build.gradle'')) =
   Inr [''compile'', ''pack'']"
proof -
  have n: "CHR 0x0A \<notin> set ''task deploy {''" by simp
  have f: "files sampleHost (fsPath (fileUri ''/ws/app/build.gradle'')) =
        Some ((''task compile(type: Exec) {'' @ [CHR 0x0A] @ ''task docs'' @ [CHR 0x0A] @
               ''task pack {'' @ [CHR 0x0A]) @ ''task deploy {'')"
    by (simp add: sample_defs)
  have "map_sum id (map task_name)
          (readGradlefile
             (sampleHost\<lparr> files := (files sampleHost)(fsPath (fileUri ''/ws/app/build.gradle'') \<mapsto>
                ''task compile(type: Exec) {'' @ [CHR 0x0A] @ ''task docs'' @ [CHR 0x0A] @
                ''task pack {'' @ [CHR 0x0A]) \<rparr>)
             (fileUri ''/ws/app/build.gradle'')) = Inr [''compile'', ''pack'']"
    by (simp add: gradle_defs sample_defs object_defs string_defs Let_def)
  with gradle_unterminated_last_line[OF n f] show ?thesis by simp
qed

section \<open>Properties of the script detector\<close>

lemma testArgPattern_iff:
  "testArgPattern s \<longleftrightarrow>
     (\<exists>pre d post. s = pre @ CHR ''%'' # d # post \<and> d \<in> set ''123456789'')"
proof (induction s rule: testArgPattern.induct)
  case (1 c d cs)
  show ?case
  proof
    assume "testArgPattern (c # d # cs)"
    then consider "c = CHR ''%'' \<and> d \<in> set ''123456789''" | "testArgPattern (d # cs)"
      by auto
    then show "\<exists>pre e post. c # d # cs = pre @ CHR ''%'' # e # post \<and> e \<in> set ''123456789''"
    proof cases
      case 1
      then have "c # d # cs = [] @ CHR ''%'' # d # cs \<and> d \<in> set ''123456789''" by simp
      then show ?thesis by blast
    next
      case 2
      with "1.IH" obtain pre e post where
        "d # cs = pre @ CHR ''%'' # e # post" and "e \<in> set ''123456789''"
        by blast
      then have "c # d # cs = (c # pre) @ CHR ''%'' # e # post \<and> e \<in> set ''123456789''"
        by simp
      then show ?thesis by blast
    qed
  next
    assume "\<exists>pre e post. c # d # cs = pre @ CHR ''%'' # e # post \<and> e \<in> set ''123456789''"
    then obtain pre e post where
      eq: "c # d # cs = pre @ CHR ''%'' # e # post" and e: "e \<in> set ''123456789''"
      by blast
    show "testArgPattern (c # d # cs)"
    proof (cases pre)
      case Nil
      with eq e show ?thesis by simp
    next
      case (Cons x pre')
      with eq have "d # cs = pre' @ CHR ''%'' # e # post" by simp
      with e "1.IH" have "testArgPattern (d # cs)" by blast
      then show ?thesis by simp
    qed
  qed
qed (simp_all add: Cons_eq_append_conv)

text \<open>
  C7. The descriptor of a batch file, a file with the extension \<open>.bat\<close> that can
  be read, has \<open>requiresArgs\<close> set exactly when the text of the file contains a
  percent sign followed by a digit from 1 to 9.
\<close>

theorem batch_requires_args:
  assumes "extname (fsPath uri) = ''.bat''" and "files h (fsPath uri) = Some contents"
  shows "\<exists>t. scriptTaskOf h (Some folder) uri = Inr t \<and>
           def_requiresArgs (task_definition t) =
             (\<exists>pre d post. contents = pre @ CHR ''%'' # d # post \<and> d \<in> set ''123456789'')"
  using assms
  by (simp add: scriptTaskOf_def substringFrom_def scriptTable_def createScriptTask_def
      readFile_def Let_def testArgPattern_iff)

theorem batch_requires_args_witness:
  "(\<exists>t. scriptTaskOf sampleHost (Some sampleFolder) (fileUri ''/ws/deploy.bat'') = Inr t \<and>
        def_requiresArgs (task_definition t)) \<and>
   (\<exists>t. scriptTaskOf sampleHost (Some sampleFolder) (fileUri ''/ws/clean.bat'') = Inr t \<and>
        \<not> def_requiresArgs (task_definition t))"
proof
  have e: "extname (fsPath (fileUri ''/ws/deploy.bat'')) = ''.bat''"
    by (simp add: fileUri_def string_defs)
  have f: "files sampleHost (fsPath (fileUri ''/ws/deploy.bat'')) = Some ''copy %1 out''"
    by (simp add: sample_defs)
  have "''copy %1 out'' = ''copy '' @ CHR ''%'' # CHR ''1'' # '' out'' \<and>
        CHR ''1'' \<in> set ''123456789''"
    by simp
  then have "\<exists>pre d post. ''copy %1 out'' = pre @ CHR ''%'' # d # post \<and> d \<in> set ''123456789''"
    by blast
  with batch_requires_args[OF e f, of sampleFolder]
  show "\<exists>t. scriptTaskOf sampleHost (Some sampleFolder) (fileUri ''/ws/deploy.bat'') = Inr t \<and>
        def_requiresArgs (task_definition t)"
    by simp
next
  have e: "extname (fsPath (fileUri ''/ws/clean.bat'')) = ''.bat''"
    by (simp add: fileUri_def string_defs)
  have f: "files sampleHost (fsPath (fileUri ''/ws/clean.bat'')) = Some ''del /q out''"
    by (simp add: sample_defs)
  have "\<not> testArgPattern ''del /q out''" by simp
  then have n: "\<not> (\<exists>pre d post. ''del /q out'' = pre @ CHR ''%'' # d # post \<and> d \<in> set ''123456789'')"
    using testArgPattern_iff[of "''del /q out''"] by blast
  from batch_requires_args[OF e f, of sampleFolder] obtain t where
    "scriptTaskOf sampleHost (Some sampleFolder) (fileUri ''/ws/clean.bat'') = Inr t" and
    "def_requiresArgs (task_definition t) =
       (\<exists>pre d post. ''del /q out'' = pre @ CHR ''%'' # d # post \<and> d \<in> set ''123456789'')"
    by blast
  with n show "\<exists>t. scriptTaskOf sampleHost (Some sampleFolder) (fileUri ''/ws/clean.bat'') = Inr t \<and>
        \<not> def_requiresArgs (task_definition t)"
    by blast
qed

section \<open>Properties of the caches\<close>

lemma foldl_remove1_Cons:
  "\<forall>y \<in> set ys. y \<noteq> a \<Longrightarrow>
   foldl removeFromArray (a # zs) ys = a # foldl removeFromArray zs ys"
  by (induction ys arbitrary: zs) (simp_all add: removeFromArray_def)

lemma removeTasks_filter: "removeTasks ts (filter P ts) = filter (\<lambda>t. \<not> P t) ts"
proof (induction ts)
  case Nil
  then show ?case by (simp add: removeTasks_def)
next
  case (Cons a ts)
  show ?case
  proof (cases "P a")
    case True
    then show ?thesis using Cons by (simp add: removeTasks_def removeFromArray_def)
  next
    case False
    then have "\<forall>y \<in> set (filter P ts). y \<noteq> a" by auto
    then have "foldl removeFromArray (a # ts) (filter P ts) = a # foldl removeFromArray ts (filter P ts)"
      by (rule foldl_remove1_Cons)
    with False Cons show ?thesis by (simp add: removeTasks_def)
  qed
qed

definition cacheTasks :: "Cache \<Rightarrow> Task list" where
  "cacheTasks c = (case c of None \<Rightarrow> [] | Some ts \<Rightarrow> ts)"

lemma cacheTasks_settle: "cacheTasks (snd (settle ts)) = ts"
  by (cases ts) (simp_all add: settle_def cacheTasks_def)

lemma invalidateFile_keeps_other_file:
  assumes uris: "\<forall>t \<in> set ts. taskFsPath t \<noteq> None"
    and other: "b \<noteq> fsPath a" "pathExists h b"
    and new: "\<And>new. rd a = Inr new \<Longrightarrow> \<forall>t \<in> set new. taskFsPath t = Some (fsPath a)"
  shows "filter (\<lambda>t. taskFsPath t = Some b) (cacheTasks (snd (invalidateFile h rd (Some a) (Some ts)))) =
         filter (\<lambda>t. taskFsPath t = Some b) ts"
proof -
  let ?P = "\<lambda>each. case taskFsPath each of None \<Rightarrow> False
                     | Some p \<Rightarrow> p = fsPath a \<or> \<not> pathExists h p"
  let ?ts' = "removeTasks ts (filter ?P ts)"
  have ts': "?ts' = filter (\<lambda>t. \<not> ?P t) ts" by (rule removeTasks_filter)
  have keep: "filter (\<lambda>t. taskFsPath t = Some b) ?ts' = filter (\<lambda>t. taskFsPath t = Some b) ts"
    unfolding ts' using other by (auto intro: filter_cong)
  have no_uri: "\<not> (\<exists>each \<in> set ts. taskFsPath each = None)" using uris by blast
  show ?thesis
  proof (cases "pathExists h (fsPath a) \<and> \<not> existsInArray (exclude h) (uri_path a)")
    case False
    then have "invalidateFile h rd (Some a) (Some ts) = settle ?ts'"
      using no_uri by (auto simp: invalidateFile_def Let_def)
    then show ?thesis using keep by (simp add: cacheTasks_settle)
  next
    case True
    show ?thesis
    proof (cases "rd a")
      case (Inl e)
      then have "invalidateFile h rd (Some a) (Some ts) = (Some e, Some ?ts')"
        using no_uri True by (auto simp: invalidateFile_def Let_def)
      then show ?thesis using keep by (simp add: cacheTasks_def)
    next
      case (Inr new)
      then have "invalidateFile h rd (Some a) (Some ts) = settle (?ts' @ new)"
        using no_uri True by (auto simp: invalidateFile_def Let_def)
      moreover have "filter (\<lambda>t. taskFsPath t = Some b) new = []"
        using new[OF Inr] other(1) by (auto simp: filter_empty_conv)
      ultimately show ?thesis using keep by (simp add: cacheTasks_settle)
    qed
  qed
qed

lemma invalidateFile_delete:
  assumes uris: "\<forall>t \<in> set ts. taskFsPath t \<noteq> None"
    and gone: "\<not> pathExists h (fsPath a)"
  shows "filter (\<lambda>t. taskFsPath t = Some (fsPath a))
           (cacheTasks (snd (invalidateFile h rd (Some a) (Some ts)))) = []"
proof -
  let ?P = "\<lambda>each. case taskFsPath each of None \<Rightarrow> False
                     | Some p \<Rightarrow> p = fsPath a \<or> \<not> pathExists h p"
  let ?ts' = "removeTasks ts (filter ?P ts)"
  have ts': "?ts' = filter (\<lambda>t. \<not> ?P t) ts" by (rule removeTasks_filter)
  have no_uri: "\<not> (\<exists>each \<in> set ts. taskFsPath each = None)" using uris by blast
  have "invalidateFile h rd (Some a) (Some ts) = settle ?ts'"
    using no_uri gone by (auto simp: invalidateFile_def Let_def)
  moreover have "filter (\<lambda>t. taskFsPath t = Some (fsPath a)) ?ts' = []"
    unfolding ts' by (auto simp: filter_empty_conv)
  ultimately show ?thesis by (simp add: cacheTasks_settle)
qed

lemma readAntfile_paths:
  "readAntfile h a = Inr new \<Longrightarrow> \<forall>t \<in> set new. taskFsPath t = Some (fsPath a)"
  by (auto simp: readAntfile_def createAntTask_def taskFsPath_def Let_def
      split: option.splits sum.splits)

lemma readGradlefile_paths:
  "readGradlefile h a = Inr new \<Longrightarrow> \<forall>t \<in> set new. taskFsPath t = Some (fsPath a)"
  by (auto simp: readGradlefile_def createGradleTask_def taskFsPath_def Let_def
      split: option.splits sum.splits)

text \<open>
  For the Ant and the Gradle cache an event for file \<open>a\<close>, a change or a delete,
  leaves the descriptors of every other file that is still on disk as they are, and a
  delete event leaves no descriptor of \<open>a\<close>.
\<close>

lemma ant_gradle_invalidate_frame:
  assumes "\<forall>t \<in> set ts. taskFsPath t \<noteq> None" and "b \<noteq> fsPath a" and "pathExists h b"
  shows "filter (\<lambda>t. taskFsPath t = Some b)
           (cacheTasks (snd (invalidateTasksCacheAnt h (Some a) (Some ts)))) =
         filter (\<lambda>t. taskFsPath t = Some b) ts"
    and "filter (\<lambda>t. taskFsPath t = Some b)
           (cacheTasks (snd (invalidateTasksCacheGradle h (Some a) (Some ts)))) =
         filter (\<lambda>t. taskFsPath t = Some b) ts"
  unfolding invalidateTasksCacheAnt_def invalidateTasksCacheGradle_def
  using assms readAntfile_paths readGradlefile_paths
  by (intro invalidateFile_keeps_other_file; blast)+

lemma ant_gradle_delete_removes:
  assumes "\<forall>t \<in> set ts. taskFsPath t \<noteq> None" and "\<not> pathExists h (fsPath a)"
  shows "filter (\<lambda>t. taskFsPath t = Some (fsPath a))
           (cacheTasks (snd (invalidateTasksCacheAnt h (Some a) (Some ts)))) = []"
    and "filter (\<lambda>t. taskFsPath t = Some (fsPath a))
           (cacheTasks (snd (invalidateTasksCacheGradle h (Some a) (Some ts)))) = []"
  unfolding invalidateTasksCacheAnt_def invalidateTasksCacheGradle_def
  using assms by (simp_all add: invalidateFile_delete)

text \<open>
  \<open>scriptTasksAt p\<close> is the descriptor the script detector builds for the path
  \<open>p\<close> of the sample workspace.
\<close>

definition scriptTasksAt :: "string \<Rightarrow> Task list" where
  "scriptTasksAt p =
     (case scriptTaskOf sampleHost (Some sampleFolder) (fileUri p) of
        Inl e \<Rightarrow> []
      | Inr t \<Rightarrow> [t])"

text \<open>
  C3 on the script cache. The cache holds the descriptors of \<open>/ws/old.sh\<close> and
  \<open>/ws/run.sh\<close>; \<open>/ws/old.sh\<close> is no longer on disk. The delete event for it
  removes its descriptor and pushes a new descriptor for the same file: the cache
  still holds a descriptor of the deleted file. The Ant and the Gradle invalidation
  read the file only when it is on disk (\<open>ant_gradle_delete_removes\<close>).
\<close>

theorem script_delete_readds:
  "files sampleHost (fsPath (fileUri ''/ws/old.sh'')) = None \<and>
   map (\<lambda>t. (taskFsPath t, task_name t))
     (scriptTasksAt ''/ws/old.sh'' @ scriptTasksAt ''/ws/run.sh'') =
     [(Some ''/ws/old.sh'', ''old.sh''), (Some ''/ws/run.sh'', ''run.sh'')] \<and>
   invalidateTasksCacheScript sampleHost (Some (fileUri ''/ws/old.sh''))
     (Some (scriptTasksAt ''/ws/old.sh'' @ scriptTasksAt ''/ws/run.sh'')) =
   (None, Some (scriptTasksAt ''/ws/run.sh'' @ scriptTasksAt ''/ws/old.sh''))"
  by (simp add: scriptTasksAt_def cache_defs script_defs sample_defs string_defs Let_def)

text \<open>
  C8 on the script cache. A file event that arrives while the cache is undefined
  (before the first scan, or after a full invalidation) ends in a type error: the
  function iterates over the cache without the test \<open>opt && cachedTasks\<close> of the Ant
  and the Gradle invalidation, which leave an undefined cache undefined.
\<close>

theorem script_invalidate_unpopulated:
  "invalidateTasksCacheScript h (Some uri) None = (Some TypeError, None)"
  by (simp add: invalidateTasksCacheScript_def)

lemma ant_gradle_invalidate_unpopulated:
  "invalidateTasksCacheAnt h opt None = (None, None)"
  "invalidateTasksCacheGradle h opt None = (None, None)"
  by (simp_all add: invalidateTasksCacheAnt_def invalidateTasksCacheGradle_def
      invalidateFile_def split: option.splits)

text \<open>
  A delete event for a file the script cache does not hold is not a no-op either: for
  a shell script a descriptor is inserted, for a batch file the read fails, and for
  the extension \<open>cmd\<close>, which the batch watcher reports, the table has no entry.
\<close>

lemma script_delete_unknown:
  "invalidateTasksCacheScript sampleHost (Some (fileUri ''/ws/old.sh''))
     (Some (scriptTasksAt ''/ws/run.sh'')) =
   (None, Some (scriptTasksAt ''/ws/run.sh'' @ scriptTasksAt ''/ws/old.sh''))"
  "invalidateTasksCacheScript sampleHost (Some (fileUri ''/ws/old.bat''))
     (Some (scriptTasksAt ''/ws/run.sh'')) =
   (Some IOError, Some (scriptTasksAt ''/ws/run.sh''))"
  "invalidateTasksCacheScript sampleHost (Some (fileUri ''/ws/old.cmd''))
     (Some (scriptTasksAt ''/ws/run.sh'')) =
   (Some TypeError, Some (scriptTasksAt ''/ws/run.sh''))"
  by (simp_all add: scriptTasksAt_def cache_defs script_defs sample_defs string_defs Let_def)

section \<open>Properties of the full scans\<close>
























text \<open>
  A readable Ant file whose project element has targets and no attributes: the one
  kind of file on which \<open>findAllAntScripts\<close> throws.
\<close>

definition antUnattributed :: "Host \<Rightarrow> Uri \<Rightarrow> bool" where
  "antUnattributed h uri =
     (case files h (fsPath uri) of
        None \<Rightarrow> False
      | Some contents \<Rightarrow>
          (case parseString h contents of
             XmlOk (JsonRoot (Some project)) \<Rightarrow>
               prj_target project \<noteq> None \<and> prj_attrs project = None
           | _ \<Rightarrow> False))"

lemma readAntfile_unattributed:
  "antUnattributed h u \<Longrightarrow> getWorkspaceFolder h u \<noteq> None \<Longrightarrow> readAntfile h u = Inl TypeError"
  by (auto simp: antUnattributed_def readAntfile_def readFile_def findAllAntScripts_def
      split: option.splits XmlResult.splits XmlJson.splits)











section \<open>Properties of the tree builder\<close>

subsection \<open>Placing\<close>

text \<open>The number of task items placed under the task files of a state.\<close>

definition countItems :: "BuildState \<Rightarrow> nat" where
  "countItems st = sum_list (map (\<lambda>(k, f). length (tf_scripts f)) (bs_files st))"

text \<open>
  A task of the TypeScript compiler whose name gives a directory that is excluded.
\<close>

definition tscExcluded :: "Host \<Rightarrow> Task \<Rightarrow> bool" where
  "tscExcluded h t =
     (case task_scope t of
        ScopeFolder scope \<Rightarrow>
          (case tscDirectory t of
             None \<Rightarrow> False
           | Some d \<Rightarrow> isExcluded h (pathJoin h (uri_path (wf_uri scope)) d))
      | _ \<Rightarrow> False)"

lemma isInstallTask_name: "isInstallTask t \<longleftrightarrow> task_name t = ''install''"
  by (auto simp: isInstallTask_def getTaskName_def split: option.splits)

lemma objUpdate_sum:
  fixes g :: "'v \<Rightarrow> nat"
  shows "sum_list (map (\<lambda>(k, f). g f) (objUpdate m k v)) +
           (case map_of m k of None \<Rightarrow> 0 | Some old \<Rightarrow> g old) =
         sum_list (map (\<lambda>(k, f). g f) m) + g v"
  by (induction m k v rule: objUpdate.induct) auto

lemma objUpdate_mem: "(k, v) \<in> set (objUpdate m k v)"
  by (induction m k v rule: objUpdate.induct) auto

lemma addTaskItem_count:
  "countItems (addTaskItem st scope fileId t) = Suc (countItems st) \<and>
   (\<exists>f \<in> snd ` set (bs_files (addTaskItem st scope fileId t)). newTaskItem t \<in> set (tf_scripts f))"
proof (cases "map_of (bs_files st) fileId")
  case None
  let ?f = "(newTaskFile fileId (task_definition t) (task_source t) (taskRelativePath t))
              \<lparr> tf_scripts := [newTaskItem t] \<rparr>"
  have fs: "bs_files (addTaskItem st scope fileId t) = objUpdate (bs_files st) fileId ?f"
    using None by (simp add: addTaskItem_def)
  have "countItems (addTaskItem st scope fileId t) = Suc (countItems st)"
    using objUpdate_sum[of "\<lambda>f. length (tf_scripts f)" "bs_files st" fileId ?f] None
    by (simp add: countItems_def fs)
  moreover have "(fileId, ?f) \<in> set (bs_files (addTaskItem st scope fileId t))"
    unfolding fs by (rule objUpdate_mem)
  then have "\<exists>f \<in> snd ` set (bs_files (addTaskItem st scope fileId t)).
               newTaskItem t \<in> set (tf_scripts f)"
    by (intro bexI[of _ ?f]) (simp, force)
  ultimately show ?thesis by blast
next
  case (Some old)
  let ?f = "old \<lparr> tf_scripts := tf_scripts old @ [newTaskItem t] \<rparr>"
  have fs: "bs_files (addTaskItem st scope fileId t) = objUpdate (bs_files st) fileId ?f"
    using Some by (simp add: addTaskItem_def)
  have "countItems (addTaskItem st scope fileId t) = Suc (countItems st)"
    using objUpdate_sum[of "\<lambda>f. length (tf_scripts f)" "bs_files st" fileId ?f] Some
    by (simp add: countItems_def fs)
  moreover have "(fileId, ?f) \<in> set (bs_files (addTaskItem st scope fileId t))"
    unfolding fs by (rule objUpdate_mem)
  then have "\<exists>f \<in> snd ` set (bs_files (addTaskItem st scope fileId t)).
               newTaskItem t \<in> set (tf_scripts f)"
    by (intro bexI[of _ ?f]) (simp, force)
  ultimately show ?thesis by blast
qed

lemma placeTask_unfold:
  assumes "enableFlag h (task_source t)" and "task_scope t = ScopeFolder scope"
    and "task_name t \<noteq> ''install''"
  shows "placeTask h st t =
     (if tscDirectory t \<noteq> None \<and>
         isExcluded h (pathJoin h (uri_path (wf_uri scope)) (taskRelativePath t))
      then st \<lparr> bs_folders := ensureFolder (bs_folders st) scope \<rparr>
      else addTaskItem (st \<lparr> bs_folders := ensureFolder (bs_folders st) scope \<rparr>) scope
             (taskFileId h scope t) t)"
proof -
  have g: "enableFlag h (task_source t) \<and> isWorkspaceFolder (task_scope t) \<and> \<not> isInstallTask t"
    using assms by (simp add: isInstallTask_name isWorkspaceFolder_def)
  show ?thesis
    unfolding placeTask_def
    apply (subst if_P[OF g])
    apply (simp only: assms(2) TaskScope.case Let_def)
    done
qed

lemma tscExcluded_iff:
  assumes "task_scope t = ScopeFolder scope"
  shows "tscExcluded h t \<longleftrightarrow>
         tscDirectory t \<noteq> None \<and>
         isExcluded h (pathJoin h (uri_path (wf_uri scope)) (taskRelativePath t))"
  using assms by (auto simp: tscExcluded_def taskRelativePath_def split: option.splits)

lemma placeTask_skipped:
  assumes "\<not> enableFlag h (task_source t) \<or> \<not> isWorkspaceFolder (task_scope t) \<or>
           task_name t = ''install'' \<or> tscExcluded h t"
  shows "bs_files (placeTask h st t) = bs_files st"
proof (cases "enableFlag h (task_source t) \<and> isWorkspaceFolder (task_scope t) \<and>
              \<not> isInstallTask t")
  case False
  have "placeTask h st t = st"
    unfolding placeTask_def using False by (rule if_not_P)
  then show ?thesis by simp
next
  case True
  then obtain scope where sc: "task_scope t = ScopeFolder scope"
    by (auto simp: isWorkspaceFolder_def split: TaskScope.splits)
  from True have e: "enableFlag h (task_source t)" and n: "task_name t \<noteq> ''install''"
    by (simp_all add: isInstallTask_name)
  from True assms have "tscExcluded h t" by (simp add: isInstallTask_name)
  then have x: "tscDirectory t \<noteq> None \<and>
      isExcluded h (pathJoin h (uri_path (wf_uri scope)) (taskRelativePath t))"
    using tscExcluded_iff[OF sc, of h] by blast
  have "placeTask h st t = st \<lparr> bs_folders := ensureFolder (bs_folders st) scope \<rparr>"
    by (simp only: placeTask_unfold[OF e sc n] if_P[OF x])
  then show ?thesis by simp
qed

lemma placeTask_placed:
  assumes "enableFlag h (task_source t)" "isWorkspaceFolder (task_scope t)"
    "task_name t \<noteq> ''install''" "\<not> tscExcluded h t"
  shows "countItems (placeTask h st t) = Suc (countItems st) \<and>
         (\<exists>f \<in> snd ` set (bs_files (placeTask h st t)). newTaskItem t \<in> set (tf_scripts f))"
proof -
  from assms(2) obtain scope where sc: "task_scope t = ScopeFolder scope"
    by (auto simp: isWorkspaceFolder_def split: TaskScope.splits)
  let ?st = "st \<lparr> bs_folders := ensureFolder (bs_folders st) scope \<rparr>"
  have nx: "\<not> (tscDirectory t \<noteq> None \<and>
      isExcluded h (pathJoin h (uri_path (wf_uri scope)) (taskRelativePath t)))"
    using assms(4) tscExcluded_iff[OF sc, of h] by blast
  have p: "placeTask h st t = addTaskItem ?st scope (taskFileId h scope t) t"
    by (simp only: placeTask_unfold[OF assms(1) sc assms(3)] if_not_P[OF nx])
  have c: "countItems ?st = countItems st" by (simp add: countItems_def)
  show ?thesis
    unfolding p using addTaskItem_count[of ?st scope "taskFileId h scope t" t]
    by (simp only: c)
qed

text \<open>
  C9, for descriptors that are not named \<open>install\<close> under a type other than npm (the
  only type with an install helper, \<open>runInstall\<close>): the loop body of \<open>buildTaskTree\<close>
  leaves the task files as they are exactly when the enable flag of the type is off, or
  the scope is not a workspace folder, or the descriptor is the npm task named
  \<open>install\<close>, or it is a task of the TypeScript compiler whose directory is excluded;
  otherwise it adds one task item for the descriptor to a task file.
\<close>

theorem tree_skip_rule:
  assumes "task_name t = ''install'' \<longrightarrow> task_source t = ''npm''"
  shows "if \<not> enableFlag h (task_source t) \<or> \<not> isWorkspaceFolder (task_scope t) \<or>
            (task_name t = ''install'' \<and> task_source t = ''npm'') \<or> tscExcluded h t
         then bs_files (placeTask h st t) = bs_files st
         else countItems (placeTask h st t) = Suc (countItems st) \<and>
              (\<exists>f \<in> snd ` set (bs_files (placeTask h st t)). newTaskItem t \<in> set (tf_scripts f))"
proof (cases "\<not> enableFlag h (task_source t) \<or> \<not> isWorkspaceFolder (task_scope t) \<or>
            (task_name t = ''install'' \<and> task_source t = ''npm'') \<or> tscExcluded h t")
  case True
  then have "\<not> enableFlag h (task_source t) \<or> \<not> isWorkspaceFolder (task_scope t) \<or>
           task_name t = ''install'' \<or> tscExcluded h t"
    by blast
  then have "bs_files (placeTask h st t) = bs_files st"
    by (rule placeTask_skipped)
  then show ?thesis by (simp only: if_P[OF True])
next
  case False
  with assms have "enableFlag h (task_source t)" "isWorkspaceFolder (task_scope t)"
    "task_name t \<noteq> ''install''" "\<not> tscExcluded h t"
    by blast+
  from placeTask_placed[OF this] show ?thesis by (simp only: if_not_P[OF False])
qed


text \<open>
  Sample descriptors: the install task of npm, a watch task of the TypeScript compiler
  for \<open>src/tsconfig.json\<close>, and the task of an Ant target named \<open>install\<close>;
  \<open>excludeHost\<close> is the sample workspace with the directory \<open>src\<close> excluded.
\<close>

definition npmInstall :: Task where
  "npmInstall =
     \<lparr> task_definition =
         \<lparr> def_type = ''npm'', def_script = Some ''install'', def_path = None,
           def_fileName = None, def_uri = None, def_scriptType = None, def_cmdLine = None,
           def_scriptFile = False, def_requiresArgs = False \<rparr>,
       task_scope = ScopeFolder sampleFolder, task_name = ''install'', task_source = ''npm'',
       task_execution =
         \<lparr> se_command = ''npm'', se_args = [''install''], se_cwd = ''/ws'',
           se_executable = None \<rparr>,
       task_isBuild = False \<rparr>"

definition tscWatch :: Task where
  "tscWatch =
     \<lparr> task_definition =
         \<lparr> def_type = ''typescript'', def_script = None, def_path = None,
           def_fileName = None, def_uri = None, def_scriptType = None, def_cmdLine = None,
           def_scriptFile = False, def_requiresArgs = False \<rparr>,
       task_scope = ScopeFolder sampleFolder, task_name = ''watch - src/tsconfig.json'',
       task_source = ''tsc'',
       task_execution =
         \<lparr> se_command = ''tsc'', se_args = [''-w'', ''-p'', ''src/tsconfig.json''],
           se_cwd = ''/ws'', se_executable = None \<rparr>,
       task_isBuild = True \<rparr>"

definition antInstall :: Task where
  "antInstall = createAntTask sampleHost ''install'' ''install'' sampleFolder (fileUri ''/ws/build.xml'')"

definition excludeHost :: Host where
  "excludeHost = sampleHost \<lparr> isExcluded := (\<lambda>p. p = ''/ws/src'') \<rparr>"

definition emptyState :: BuildState where
  "emptyState = \<lparr> bs_folders = [], bs_files = [] \<rparr>"

lemma tscWatch_directory: "tscDirectory tscWatch = Some ''src''"
  by (simp add: tscDirectory_def tscWatch_def string_defs)

lemma tscWatch_scope: "task_scope tscWatch = ScopeFolder sampleFolder"
  by (simp add: tscWatch_def)

lemma tscWatch_excluded:
  "tscExcluded excludeHost tscWatch" "\<not> tscExcluded sampleHost tscWatch"
  by (simp_all add: tscExcluded_iff[OF tscWatch_scope] taskRelativePath_def tscWatch_directory
      excludeHost_def sampleHost_def sampleFolder_def fileUri_def endsWith_def)

lemma antInstall_fields:
  "task_name antInstall = ''install''" "task_source antInstall = ''ant''"
  "task_scope antInstall = ScopeFolder sampleFolder"
  by (simp_all add: antInstall_def createAntTask_def Let_def)

theorem tree_skip_rule_witness:
  "(task_name npmInstall = ''install'' \<and> task_source npmInstall = ''npm'') \<and>
   bs_files (placeTask sampleHost emptyState npmInstall) = bs_files emptyState \<and>
   tscExcluded excludeHost tscWatch \<and>
   bs_files (placeTask excludeHost emptyState tscWatch) = bs_files emptyState \<and>
   \<not> tscExcluded sampleHost tscWatch \<and>
   countItems (placeTask sampleHost emptyState tscWatch) = Suc (countItems emptyState)"
proof -
  have n: "task_name npmInstall = ''install''" "task_source npmInstall = ''npm''"
    by (simp_all add: npmInstall_def)
  have w: "task_name tscWatch \<noteq> ''install''" by (simp add: tscWatch_def)
  have e: "enableFlag sampleHost (task_source tscWatch)"
    "isWorkspaceFolder (task_scope tscWatch)"
    by (simp_all add: sampleHost_def tscWatch_def isWorkspaceFolder_def)
  note x = tscWatch_excluded(2)
  have a: "bs_files (placeTask sampleHost emptyState npmInstall) = bs_files emptyState"
    using tree_skip_rule[of npmInstall sampleHost emptyState] n by simp
  have b: "bs_files (placeTask excludeHost emptyState tscWatch) = bs_files emptyState"
    using tree_skip_rule[of tscWatch excludeHost emptyState] w tscWatch_excluded(1) by simp
  have c: "countItems (placeTask sampleHost emptyState tscWatch) = Suc (countItems emptyState)"
    using tree_skip_rule[of tscWatch sampleHost emptyState] w e x by simp
  from n a tscWatch_excluded(1) b x c show ?thesis by blast
qed

text \<open>
  With the directory \<open>src\<close> excluded, the watch task is enabled, in a workspace folder
  and not named \<open>install\<close>, and still no task file is made for it: only its folder is.
  The task of the Ant target \<open>install\<close> is dropped as well, although Ant has no install
  helper.
\<close>

theorem tree_skip_rule_counterexample:
  "enableFlag excludeHost (task_source tscWatch) \<and>
   isWorkspaceFolder (task_scope tscWatch) \<and>
   task_name tscWatch \<noteq> ''install'' \<and>
   placeTask excludeHost emptyState tscWatch =
     emptyState \<lparr> bs_folders := [(''ws'', \<lparr> fe_workspaceFolder = sampleFolder, fe_taskFiles = [] \<rparr>)] \<rparr> \<and>
   enableFlag sampleHost (task_source antInstall) \<and>
   isWorkspaceFolder (task_scope antInstall) \<and>
   task_name antInstall = ''install'' \<and>
   task_source antInstall = ''ant'' \<and>
   placeTask sampleHost emptyState antInstall = emptyState"
proof -
  have e: "enableFlag excludeHost (task_source tscWatch)"
    "isWorkspaceFolder (task_scope tscWatch)" "task_name tscWatch \<noteq> ''install''"
    by (simp_all add: excludeHost_def sampleHost_def tscWatch_def isWorkspaceFolder_def)
  note sc = tscWatch_scope
  have x: "tscDirectory tscWatch \<noteq> None \<and>
     isExcluded excludeHost
       (pathJoin excludeHost (uri_path (wf_uri sampleFolder)) (taskRelativePath tscWatch))"
    using tscWatch_excluded(1) tscExcluded_iff[OF sc, of excludeHost] by blast
  have p: "placeTask excludeHost emptyState tscWatch =
      emptyState \<lparr> bs_folders := ensureFolder (bs_folders emptyState) sampleFolder \<rparr>"
    by (simp only: placeTask_unfold[OF e(1) sc e(3)] if_P[OF x])
  have f: "ensureFolder (bs_folders emptyState) sampleFolder =
      [(''ws'', \<lparr> fe_workspaceFolder = sampleFolder, fe_taskFiles = [] \<rparr>)]"
    by (simp add: ensureFolder_def emptyState_def sampleFolder_def)
  have a: "enableFlag sampleHost (task_source antInstall)"
    "isWorkspaceFolder (task_scope antInstall)"
    by (simp_all add: antInstall_fields isWorkspaceFolder_def sampleHost_def)
  have i: "isInstallTask antInstall"
    by (simp add: isInstallTask_name antInstall_fields)
  have q: "placeTask sampleHost emptyState antInstall = emptyState"
    by (simp add: placeTask_def i)
  from e p f a antInstall_fields(1,2) q show ?thesis by simp
qed


subsection \<open>Grouping\<close>

text \<open>
  The group that the walk makes when \<open>each\<close> follows a task file of its type and the
  folder has no group of that type yet, before the two task files are put under it.
\<close>

definition groupOf :: "TaskFile \<Rightarrow> TaskGroup" where
  "groupOf each =
     newTaskGroup (task_definition (ti_task (hd (tf_scripts each)))) (tf_taskSource each)
       (tf_path each)"

text \<open>The walk over task files that all have a task item, where it cannot fail.\<close>

fun walk ::
  "string \<Rightarrow> TaskFile \<Rightarrow> TaskFile list \<Rightarrow> Subfolders \<Rightarrow> TreeNode list
   \<Rightarrow> Subfolders \<times> TreeNode list" where
  "walk label prev [] subfolders added = (subfolders, added)"
| "walk label prev (each # rest) subfolders added =
     (if tf_taskSource prev = tf_taskSource each
      then (case subfolders (label @ tf_taskSource each) of
              Some subfolder \<Rightarrow>
                walk label each rest
                  (subfolders(label @ tf_taskSource each \<mapsto>
                     subfolder \<lparr> tg_files := tg_files subfolder @ [each] \<rparr>))
                  added
            | None \<Rightarrow>
                walk label each rest
                  (subfolders(label @ tf_taskSource each \<mapsto>
                     (groupOf each) \<lparr> tg_files := [prev, each] \<rparr>))
                  (added @ [GroupNode (label @ tf_taskSource each) (tf_taskSource each)]))
      else walk label each rest subfolders added)"

text \<open>A task file that the second loop removes from its folder: one whose type has a group.\<close>

definition grouped :: "string \<Rightarrow> Subfolders \<Rightarrow> TreeNode \<Rightarrow> bool" where
  "grouped label subfolders n =
     (case n of
        FileNode f \<Rightarrow> subfolders (label @ tf_taskSource f) \<noteq> None
      | GroupNode key source \<Rightarrow> False)"

lemma promoteWalk_walk:
  "\<forall>f \<in> set xs. tf_scripts f \<noteq> [] \<Longrightarrow>
   promoteWalk label (Some p) xs sub added = Inr (walk label p xs sub added)"
proof (induction xs arbitrary: p sub added)
  case Nil
  show ?case by simp
next
  case (Cons x xs)
  then obtain first others where s: "tf_scripts x = first # others"
    by (cases "tf_scripts x") auto
  from Cons.prems have r: "\<forall>f \<in> set xs. tf_scripts f \<noteq> []" by simp
  show ?case
    by (simp add: Cons.IH[OF r] s groupOf_def Let_def fun_upd_def split: option.splits)
qed

lemma walk_untouched:
  "\<forall>x \<in> set xs. tf_taskSource x \<noteq> t \<Longrightarrow>
   fst (walk label p xs sub added) (label @ t) = sub (label @ t)"
  by (induction xs arbitrary: p sub added) (auto split: option.splits)

lemma walk_mono:
  "sub key \<noteq> None \<Longrightarrow> fst (walk label p xs sub added) key \<noteq> None"
proof (induction xs arbitrary: p sub added)
  case Nil
  then show ?case by simp
next
  case (Cons x xs)
  show ?case
  proof (cases "tf_taskSource p = tf_taskSource x")
    case False
    then have w: "walk label p (x # xs) sub added = walk label x xs sub added" by simp
    show ?thesis unfolding w using Cons.prems by (rule Cons.IH)
  next
    case True
    show ?thesis
    proof (cases "sub (label @ tf_taskSource x)")
      case None
      let ?s = "sub(label @ tf_taskSource x \<mapsto> (groupOf x) \<lparr> tg_files := [p, x] \<rparr>)"
      have w: "walk label p (x # xs) sub added =
               walk label x xs ?s (added @ [GroupNode (label @ tf_taskSource x) (tf_taskSource x)])"
        using True None by simp
      have "?s key \<noteq> None" using Cons.prems by simp
      then show ?thesis unfolding w by (rule Cons.IH)
    next
      case (Some g)
      let ?s = "sub(label @ tf_taskSource x \<mapsto> g \<lparr> tg_files := tg_files g @ [x] \<rparr>)"
      have w: "walk label p (x # xs) sub added = walk label x xs ?s added"
        using True Some by simp
      have "?s key \<noteq> None" using Cons.prems by simp
      then show ?thesis unfolding w by (rule Cons.IH)
    qed
  qed
qed

text \<open>The group nodes of the keys that \<open>sub\<close> lacks and \<open>sub'\<close> has.\<close>

definition created :: "string \<Rightarrow> Subfolders \<Rightarrow> Subfolders \<Rightarrow> TreeNode set" where
  "created label sub sub' =
     {GroupNode (label @ t) t | t. sub (label @ t) = None \<and> sub' (label @ t) \<noteq> None}"

lemma walk_added:
  "\<exists>new. snd (walk label p xs sub added) = added @ new \<and> distinct new \<and>
         set new = created label sub (fst (walk label p xs sub added))"
proof (induction xs arbitrary: p sub added)
  case Nil
  show ?case by (auto simp: created_def)
next
  case (Cons x xs)
  show ?case
  proof (cases "tf_taskSource p = tf_taskSource x")
    case False
    then show ?thesis using Cons.IH[of x sub added] by simp
  next
    case True
    let ?key = "label @ tf_taskSource x"
    show ?thesis
    proof (cases "sub ?key")
      case (Some g)
      let ?s = "sub(?key \<mapsto> g \<lparr> tg_files := tg_files g @ [x] \<rparr>)"
      have w: "walk label p (x # xs) sub added = walk label x xs ?s added"
        using True Some by simp
      have e: "\<And>t. (?s (label @ t) = None) = (sub (label @ t) = None)"
        using Some by auto
      have "created label ?s (fst (walk label x xs ?s added)) =
            created label sub (fst (walk label x xs ?s added))"
        unfolding created_def by (simp only: e)
      then show ?thesis using Cons.IH[of x ?s added] by (simp only: w)
    next
      case None
      let ?s = "sub(?key \<mapsto> (groupOf x) \<lparr> tg_files := [p, x] \<rparr>)"
      let ?g = "GroupNode ?key (tf_taskSource x)"
      let ?r = "walk label x xs ?s (added @ [?g])"
      have w: "walk label p (x # xs) sub added = ?r"
        using True None by simp
      from Cons.IH[of x ?s "added @ [?g]"] obtain new where
        n: "snd ?r = (added @ [?g]) @ new" "distinct new" "set new = created label ?s (fst ?r)"
        by blast
      have "?s ?key \<noteq> None" by simp
      then have k: "fst ?r ?key \<noteq> None" by (rule walk_mono)
      have "?g \<notin> created label ?s (fst ?r)" by (simp add: created_def)
      moreover have "created label sub (fst ?r) = insert ?g (created label ?s (fst ?r))"
        using None k by (auto simp: created_def)
      ultimately have "snd ?r = added @ (?g # new) \<and> distinct (?g # new) \<and>
           set (?g # new) = created label sub (fst ?r)"
        using n by simp
      then show ?thesis unfolding w by blast
    qed
  qed
qed

lemma sorted_other_source:
  fixes ck :: "string \<Rightarrow> 'k::linorder"
  assumes "sorted (map (\<lambda>f. ck (tf_taskSource f)) (p # x # xs))"
    and "inj_on ck (tf_taskSource ` set (p # x # xs))"
    and "tf_taskSource p \<noteq> tf_taskSource x"
  shows "\<forall>y \<in> set (x # xs). tf_taskSource y \<noteq> tf_taskSource p"
proof
  fix y assume y: "y \<in> set (x # xs)"
  have "ck (tf_taskSource p) \<le> ck (tf_taskSource x)" using assms(1) by simp
  moreover have "ck (tf_taskSource p) \<noteq> ck (tf_taskSource x)"
    using assms(2,3) by (auto dest: inj_onD)
  ultimately have l: "ck (tf_taskSource p) < ck (tf_taskSource x)" by simp
  have "ck (tf_taskSource x) \<le> ck (tf_taskSource y)" using assms(1) y by auto
  with l have "ck (tf_taskSource p) \<noteq> ck (tf_taskSource y)" by simp
  then show "tf_taskSource y \<noteq> tf_taskSource p" by auto
qed


text \<open>The task files of one type, in the order of the list.\<close>

abbreviation ofSource :: "string \<Rightarrow> TaskFile list \<Rightarrow> TaskFile list" where
  "ofSource t xs \<equiv> filter (\<lambda>f. tf_taskSource f = t) xs"

lemma walk_sorted:
  fixes ck :: "string \<Rightarrow> 'k::linorder"
  assumes "sorted (map (\<lambda>f. ck (tf_taskSource f)) (p # xs))"
    and "inj_on ck (tf_taskSource ` set (p # xs))"
    and "ofSource t xs \<noteq> []"
  shows "(tf_taskSource p = t \<longrightarrow>
            fst (walk label p xs sub added) (label @ t) =
              Some (case sub (label @ t) of
                      Some g \<Rightarrow> g \<lparr> tg_files := tg_files g @ ofSource t xs \<rparr>
                    | None \<Rightarrow> (groupOf (hd (ofSource t xs))) \<lparr> tg_files := p # ofSource t xs \<rparr>)) \<and>
         (tf_taskSource p \<noteq> t \<longrightarrow> sub (label @ t) = None \<longrightarrow>
            fst (walk label p xs sub added) (label @ t) =
              (if 2 \<le> length (ofSource t xs)
               then Some ((groupOf (ofSource t xs ! 1)) \<lparr> tg_files := ofSource t xs \<rparr>)
               else None))"
  using assms
proof (induction xs arbitrary: p sub added)
  case Nil
  then show ?case by simp
next
  case (Cons x xs)
  let ?key = "label @ tf_taskSource x"
  have so: "sorted (map (\<lambda>f. ck (tf_taskSource f)) (x # xs))"
    using Cons.prems(1) by simp
  have inj: "inj_on ck (tf_taskSource ` set (x # xs))"
    using Cons.prems(2) by (rule inj_on_subset) auto
  note IH = Cons.IH[OF so inj]
  show ?case
  proof (cases "tf_taskSource p = tf_taskSource x")
    case True
    define s1 where "s1 = (case sub ?key of
                             Some g \<Rightarrow> sub(?key \<mapsto> g \<lparr> tg_files := tg_files g @ [x] \<rparr>)
                           | None \<Rightarrow> sub(?key \<mapsto> (groupOf x) \<lparr> tg_files := [p, x] \<rparr>))"
    define a1 where "a1 = (case sub ?key of
                             Some g \<Rightarrow> added
                           | None \<Rightarrow> added @ [GroupNode ?key (tf_taskSource x)])"
    have w: "walk label p (x # xs) sub added = walk label x xs s1 a1"
      using True by (simp add: s1_def a1_def split: option.splits)
    show ?thesis
    proof (cases "tf_taskSource p = t")
      case pt: True
      then have xt: "tf_taskSource x = t" using True by simp
      have F: "ofSource t (x # xs) = x # ofSource t xs" using xt by simp
      have s1k: "s1 (label @ t) =
                 Some (case sub (label @ t) of
                         Some g \<Rightarrow> g \<lparr> tg_files := tg_files g @ [x] \<rparr>
                       | None \<Rightarrow> (groupOf x) \<lparr> tg_files := [p, x] \<rparr>)"
        using xt by (simp add: s1_def split: option.splits)
      have "fst (walk label x xs s1 a1) (label @ t) =
              Some (case sub (label @ t) of
                      Some g \<Rightarrow> g \<lparr> tg_files := tg_files g @ x # ofSource t xs \<rparr>
                    | None \<Rightarrow> (groupOf x) \<lparr> tg_files := p # x # ofSource t xs \<rparr>)"
      proof (cases "ofSource t xs = []")
        case True
        then have "\<forall>y \<in> set xs. tf_taskSource y \<noteq> t" by (simp add: filter_empty_conv)
        then have "fst (walk label x xs s1 a1) (label @ t) = s1 (label @ t)"
          by (rule walk_untouched)
        then show ?thesis using True s1k by (simp split: option.splits)
      next
        case False
        from IH[OF False, of s1 a1] xt
        have "fst (walk label x xs s1 a1) (label @ t) =
                Some (case s1 (label @ t) of
                        Some g \<Rightarrow> g \<lparr> tg_files := tg_files g @ ofSource t xs \<rparr>
                      | None \<Rightarrow> (groupOf (hd (ofSource t xs))) \<lparr> tg_files := x # ofSource t xs \<rparr>)"
          by blast
        then show ?thesis unfolding s1k by (simp split: option.splits)
      qed
      then show ?thesis unfolding w F using pt by (simp split: option.splits)
    next
      case pt: False
      then have xt: "tf_taskSource x \<noteq> t" using True by simp
      have F: "ofSource t (x # xs) = ofSource t xs" using xt by simp
      have ne: "ofSource t xs \<noteq> []" using Cons.prems(3) F by simp
      have s1k: "s1 (label @ t) = sub (label @ t)"
        using xt by (simp add: s1_def split: option.splits)
      from IH[OF ne, of s1 a1] xt s1k show ?thesis unfolding w F using pt by simp
    qed
  next
    case False
    have w: "walk label p (x # xs) sub added = walk label x xs sub added"
      using False by simp
    have o: "\<forall>y \<in> set (x # xs). tf_taskSource y \<noteq> tf_taskSource p"
      using Cons.prems(1,2) False by (rule sorted_other_source)
    show ?thesis
    proof (cases "tf_taskSource p = t")
      case True
      with o have "ofSource t (x # xs) = []" by (simp only: filter_empty_conv)
      with Cons.prems(3) show ?thesis by simp
    next
      case pt: False
      show ?thesis
      proof (cases "tf_taskSource x = t")
        case xt: False
        have F: "ofSource t (x # xs) = ofSource t xs" using xt by simp
        have ne: "ofSource t xs \<noteq> []" using Cons.prems(3) F by simp
        from IH[OF ne, of sub added] xt show ?thesis unfolding w F using pt by simp
      next
        case xt: True
        have F: "ofSource t (x # xs) = x # ofSource t xs" using xt by simp
        have "sub (label @ t) = None \<Longrightarrow>
              fst (walk label x xs sub added) (label @ t) =
                (if ofSource t xs = [] then None
                 else Some ((groupOf (hd (ofSource t xs))) \<lparr> tg_files := x # ofSource t xs \<rparr>))"
        proof (cases "ofSource t xs = []")
          case True
          assume n: "sub (label @ t) = None"
          from True have "\<forall>y \<in> set xs. tf_taskSource y \<noteq> t" by (simp add: filter_empty_conv)
          then have "fst (walk label x xs sub added) (label @ t) = sub (label @ t)"
            by (rule walk_untouched)
          then show ?thesis using True n by simp
        next
          case False
          assume n: "sub (label @ t) = None"
          from IH[OF False, of sub added] xt n False show ?thesis by simp
        qed
        moreover have "ofSource t xs \<noteq> [] \<Longrightarrow> (x # ofSource t xs) ! 1 = hd (ofSource t xs)"
          by (simp add: hd_conv_nth)
        moreover have "(2 \<le> length (x # ofSource t xs)) = (ofSource t xs \<noteq> [])"
          by (cases "ofSource t xs") simp_all
        ultimately show ?thesis unfolding w F using pt by simp
      qed
    qed
  qed
qed


lemma walk_groups:
  fixes ck :: "string \<Rightarrow> 'k::linorder"
  assumes so: "sorted (map (\<lambda>f. ck (tf_taskSource f)) (x # xs))"
    and inj: "inj_on ck (tf_taskSource ` set (x # xs))"
    and fresh: "sub (label @ t) = None"
  shows "map_option tg_files (fst (walk label x xs sub added) (label @ t)) =
         (if 2 \<le> length (ofSource t (x # xs)) then Some (ofSource t (x # xs)) else None)"
proof (cases "ofSource t xs = []")
  case True
  then have "\<forall>y \<in> set xs. tf_taskSource y \<noteq> t" by (simp add: filter_empty_conv)
  then have "fst (walk label x xs sub added) (label @ t) = sub (label @ t)"
    by (rule walk_untouched)
  then show ?thesis using True fresh by simp
next
  case False
  note s = walk_sorted[OF so inj False, of label sub added]
  show ?thesis
  proof (cases "tf_taskSource x = t")
    case True
    moreover have "2 \<le> length (x # ofSource t xs)" using False by (cases "ofSource t xs") simp_all
    ultimately show ?thesis using s fresh by simp
  next
    case False
    then show ?thesis using s fresh by simp
  qed
qed

text \<open>The walk from its start, where no previous task file is set.\<close>

definition walkAll :: "string \<Rightarrow> TaskFile list \<Rightarrow> Subfolders \<Rightarrow> Subfolders \<times> TreeNode list" where
  "walkAll label xs sub = (case xs of [] \<Rightarrow> (sub, []) | x # rest \<Rightarrow> walk label x rest sub [])"

lemma promoteWalk_walkAll:
  "\<forall>f \<in> set xs. tf_scripts f \<noteq> [] \<Longrightarrow>
   promoteWalk label None xs sub [] = Inr (walkAll label xs sub)"
  by (cases xs) (simp_all add: walkAll_def promoteWalk_walk)

lemma walkAll_groups:
  fixes ck :: "string \<Rightarrow> 'k::linorder"
  assumes "sorted (map (\<lambda>f. ck (tf_taskSource f)) xs)"
    and "inj_on ck (tf_taskSource ` set xs)"
    and "sub (label @ t) = None"
  shows "map_option tg_files (fst (walkAll label xs sub) (label @ t)) =
         (if 2 \<le> length (ofSource t xs) then Some (ofSource t xs) else None)"
proof (cases xs)
  case Nil
  then show ?thesis using assms(3) by (simp add: walkAll_def)
next
  case (Cons x rest)
  show ?thesis
    using walk_groups[where sub = sub and label = label and t = t and added = "[]",
        OF assms(1,2)[unfolded Cons] assms(3)]
    by (simp add: walkAll_def Cons)
qed

lemma walkAll_added:
  "distinct (snd (walkAll label xs sub)) \<and>
   set (snd (walkAll label xs sub)) = created label sub (fst (walkAll label xs sub))"
proof (cases xs)
  case Nil
  then show ?thesis by (auto simp: walkAll_def created_def)
next
  case (Cons x rest)
  from walk_added[of label x rest sub "[]"] show ?thesis by (simp add: walkAll_def Cons)
qed

lemma foldl_removeTaskFile_Cons:
  "\<forall>y \<in> set ys. y \<noteq> a \<Longrightarrow>
   foldl removeTaskFile (a # zs) ys = a # foldl removeTaskFile zs ys"
  by (induction ys arbitrary: zs) (simp_all add: removeTaskFile_def)

lemma foldl_removeTaskFile_filter:
  "foldl removeTaskFile ns (filter P ns) = filter (\<lambda>n. \<not> P n) ns"
proof (induction ns)
  case Nil
  show ?case by simp
next
  case (Cons a ns)
  show ?case
  proof (cases "P a")
    case True
    then show ?thesis using Cons by (simp add: removeTaskFile_def)
  next
    case False
    then have "\<forall>y \<in> set (filter P ns). y \<noteq> a" by auto
    then have "foldl removeTaskFile (a # ns) (filter P ns) = a # foldl removeTaskFile ns (filter P ns)"
      by (rule foldl_removeTaskFile_Cons)
    with False Cons show ?thesis by simp
  qed
qed

lemma promoteFolder_walkAll:
  assumes "\<forall>f \<in> set (sortedTaskFiles ck taskFiles). tf_scripts f \<noteq> []"
  shows "promoteFolder ck label taskFiles sub =
         Inr (fst (walkAll label (sortedTaskFiles ck taskFiles) sub),
              sort_key (\<lambda>a. ck (nodeSource a))
                (filter (\<lambda>n. \<not> grouped label (fst (walkAll label (sortedTaskFiles ck taskFiles) sub)) n)
                   (map FileNode (sortedTaskFiles ck taskFiles) @
                    snd (walkAll label (sortedTaskFiles ck taskFiles) sub))))"
proof -
  let ?xs = "sortedTaskFiles ck taskFiles"
  obtain sub' added where w: "walkAll label ?xs sub = (sub', added)" by (cases "walkAll label ?xs sub")
  have g: "(\<lambda>each. case each of FileNode f \<Rightarrow> sub' (label @ tf_taskSource f) \<noteq> None
                              | GroupNode key source \<Rightarrow> False) = grouped label sub'"
    by (rule ext) (simp add: grouped_def)
  show ?thesis
    unfolding promoteFolder_def Let_def promoteWalk_walkAll[OF assms] w
    by (simp only: sum.case prod.case g foldl_removeTaskFile_filter fst_conv snd_conv)
qed

lemma filter_eq_distinct:
  "distinct xs \<Longrightarrow> filter (\<lambda>n. n = a) xs = (if a \<in> set xs then [a] else [])"
  by (induction xs) auto

lemma children_files:
  "filter (\<lambda>n. nodeSource n = t) (filter (\<lambda>n. \<not> grouped label sub' n) (map FileNode xs)) =
   (if sub' (label @ t) = None then map FileNode (ofSource t xs) else [])"
  by (induction xs) (auto simp: nodeSource_def grouped_def)

lemma children_groups:
  assumes "distinct new" and "set new = created label sub sub'"
  shows "filter (\<lambda>n. nodeSource n = t) (filter (\<lambda>n. \<not> grouped label sub' n) new) =
         (if sub (label @ t) = None \<and> sub' (label @ t) \<noteq> None then [GroupNode (label @ t) t] else [])"
proof -
  have "filter (\<lambda>n. nodeSource n = t) (filter (\<lambda>n. \<not> grouped label sub' n) new) =
        filter (\<lambda>n. \<not> grouped label sub' n \<and> nodeSource n = t) new"
    by simp
  also have "\<dots> = filter (\<lambda>n. n = GroupNode (label @ t) t) new"
    by (rule filter_cong) (auto simp: assms(2) created_def grouped_def nodeSource_def)
  also have "\<dots> = (if GroupNode (label @ t) t \<in> set new then [GroupNode (label @ t) t] else [])"
    using assms(1) by (rule filter_eq_distinct)
  also have "GroupNode (label @ t) t \<in> set new \<longleftrightarrow> sub (label @ t) = None \<and> sub' (label @ t) \<noteq> None"
    by (auto simp: assms(2) created_def)
  finally show ?thesis .
qed

lemma sortedTaskFiles_sorted:
  "sorted (map (\<lambda>f. ck (tf_taskSource f)) (sortedTaskFiles ck taskFiles))"
  by (simp add: sortedTaskFiles_def)

lemma sortedTaskFiles_sources:
  "tf_taskSource ` set (sortedTaskFiles ck taskFiles) = tf_taskSource ` set taskFiles"
  by (simp add: sortedTaskFiles_def image_image)

lemma sortedTaskFiles_scripts:
  assumes "\<forall>f \<in> set taskFiles. tf_scripts f \<noteq> []"
  shows "\<forall>f \<in> set (sortedTaskFiles ck taskFiles). tf_scripts f \<noteq> []"
proof -
  have "\<And>k ys. ys \<noteq> [] \<Longrightarrow> sort_key k ys \<noteq> ([] :: TaskItem list)"
    by (metis length_sort length_0_conv)
  with assms show ?thesis by (auto simp: sortedTaskFiles_def)
qed

text \<open>
  The first loop gives every task file it makes a task item, so the walk of
  \<open>buildTaskTree\<close> never meets a task file without one.
\<close>

lemma addTaskItem_scripts:
  assumes "\<forall>f \<in> snd ` set (bs_files st). tf_scripts f \<noteq> []"
  shows "\<forall>f \<in> snd ` set (bs_files (addTaskItem st scope fileId t)). tf_scripts f \<noteq> []"
proof -
  obtain v where v: "bs_files (addTaskItem st scope fileId t) = objUpdate (bs_files st) fileId v"
    "tf_scripts v \<noteq> []"
    by (cases "map_of (bs_files st) fileId") (simp_all add: addTaskItem_def)
  from objUpdate_subset[of "bs_files st" fileId v] assms v(2) show ?thesis
    unfolding v(1) by fastforce
qed

lemma placeTask_scripts:
  assumes "\<forall>f \<in> snd ` set (bs_files st). tf_scripts f \<noteq> []"
  shows "\<forall>f \<in> snd ` set (bs_files (placeTask h st t)). tf_scripts f \<noteq> []"
proof -
  have "bs_files (placeTask h st t) = bs_files st \<or>
        (\<exists>scope. placeTask h st t =
           addTaskItem (st \<lparr> bs_folders := ensureFolder (bs_folders st) scope \<rparr>) scope
             (taskFileId h scope t) t)"
    by (auto simp: placeTask_def Let_def split: TaskScope.splits)
  then show ?thesis
  proof
    assume "bs_files (placeTask h st t) = bs_files st"
    with assms show ?thesis by simp
  next
    assume "\<exists>scope. placeTask h st t =
           addTaskItem (st \<lparr> bs_folders := ensureFolder (bs_folders st) scope \<rparr>) scope
             (taskFileId h scope t) t"
    then obtain scope where p: "placeTask h st t =
           addTaskItem (st \<lparr> bs_folders := ensureFolder (bs_folders st) scope \<rparr>) scope
             (taskFileId h scope t) t" ..
    have "\<forall>f \<in> snd ` set (bs_files (st \<lparr> bs_folders := ensureFolder (bs_folders st) scope \<rparr>)).
            tf_scripts f \<noteq> []"
      using assms by simp
    then show ?thesis unfolding p by (rule addTaskItem_scripts)
  qed
qed

lemma foldl_placeTask_scripts:
  "\<forall>f \<in> snd ` set (bs_files st). tf_scripts f \<noteq> [] \<Longrightarrow>
   \<forall>f \<in> snd ` set (bs_files (foldl (placeTask h) st tasks)). tf_scripts f \<noteq> []"
proof (induction tasks arbitrary: st)
  case Nil
  then show ?case by simp
next
  case (Cons t tasks)
  from Cons.prems have "\<forall>f \<in> snd ` set (bs_files (placeTask h st t)). tf_scripts f \<noteq> []"
    by (rule placeTask_scripts)
  then have "\<forall>f \<in> snd ` set (bs_files (foldl (placeTask h) (placeTask h st t) tasks)).
               tf_scripts f \<noteq> []"
    by (rule Cons.IH)
  then show ?case by simp
qed

lemma folderFiles_scripts:
  "\<forall>f \<in> set (folderFiles (placeTasks h tasks) folder). tf_scripts f \<noteq> []"
proof -
  have "\<forall>f \<in> snd ` set (bs_files (placeTasks h tasks)). tf_scripts f \<noteq> []"
    unfolding placeTasks_def by (rule foldl_placeTask_scripts) simp
  moreover have "set (folderFiles (placeTasks h tasks) folder) \<subseteq>
                 snd ` set (bs_files (placeTasks h tasks))"
  proof
    fix f assume "f \<in> set (folderFiles (placeTasks h tasks) folder)"
    then obtain fileId where "map_of (bs_files (placeTasks h tasks)) fileId = Some f"
      by (auto simp: folderFiles_def split: option.splits)
    then have "(fileId, f) \<in> set (bs_files (placeTasks h tasks))" by (rule map_of_SomeD)
    then show "f \<in> snd ` set (bs_files (placeTasks h tasks))" by force
  qed
  ultimately show ?thesis by blast
qed

lemma buildTaskTree_single:
  assumes "bs_folders (placeTasks h tasks) = [(label, folder)]"
  shows "buildTaskTree h ck tasks =
         (case promoteFolder ck label (folderFiles (placeTasks h tasks) folder) (\<lambda>key. None) of
            Inl e \<Rightarrow> Inl e
          | Inr (subfolders, children) \<Rightarrow> Inr (subfolders, [(label, children)]))"
  by (simp add: buildTaskTree_def assms Let_def split: sum.splits)

text \<open>
  Grouping within one folder of the second loop of \<open>buildTaskTree\<close>. The task files of the
  folder are sorted by the collation key of their type, so the task files of a type
  \<open>t\<close> are consecutive in the sorted sequence: they are \<open>ofSource t\<close> of it. When
  there are two or more of them, the map of the groups holds under the key of the
  folder and the type a group whose children are exactly these task files, in their
  sorted order, and the only child of the folder of type \<open>t\<close> is the node of that
  group: the task files themselves have been removed. When there is exactly one, no
  group is registered for the type and that task file is the only child of the folder
  of type \<open>t\<close>. The collation is taken to tell different types apart, every task
  file has a task item (as the first loop ensures, \<open>folderFiles_scripts\<close>), and no
  group is registered yet under the keys of this folder.
\<close>

lemma promoteFolder_groups:
  fixes ck :: "string \<Rightarrow> 'k::linorder"
  assumes fresh: "\<forall>f \<in> set taskFiles. subfolders (label @ tf_taskSource f) = None"
    and scripts: "\<forall>f \<in> set taskFiles. tf_scripts f \<noteq> []"
    and coll: "inj_on ck (tf_taskSource ` set taskFiles)"
  shows "\<exists>subfolders' children.
           promoteFolder ck label taskFiles subfolders = Inr (subfolders', children) \<and>
           (2 \<le> length (ofSource t (sortedTaskFiles ck taskFiles)) \<longrightarrow>
              map_option tg_files (subfolders' (label @ t)) =
                Some (ofSource t (sortedTaskFiles ck taskFiles)) \<and>
              filter (\<lambda>n. nodeSource n = t) children = [GroupNode (label @ t) t]) \<and>
           (length (ofSource t (sortedTaskFiles ck taskFiles)) = 1 \<longrightarrow>
              subfolders' (label @ t) = None \<and>
              filter (\<lambda>n. nodeSource n = t) children =
                map FileNode (ofSource t (sortedTaskFiles ck taskFiles)))"
proof -
  let ?xs = "sortedTaskFiles ck taskFiles"
  let ?run = "ofSource t ?xs"
  let ?sub = "fst (walkAll label ?xs subfolders)"
  let ?new = "snd (walkAll label ?xs subfolders)"
  let ?children = "sort_key (\<lambda>a. ck (nodeSource a))
                     (filter (\<lambda>n. \<not> grouped label ?sub n) (map FileNode ?xs @ ?new))"
  have p: "promoteFolder ck label taskFiles subfolders = Inr (?sub, ?children)"
    using sortedTaskFiles_scripts[OF scripts] by (rule promoteFolder_walkAll)
  have inj: "inj_on ck (tf_taskSource ` set ?xs)"
    using coll by (simp only: sortedTaskFiles_sources)
  have c: "filter (\<lambda>n. nodeSource n = t) ?children =
           sort_key (\<lambda>a. ck (nodeSource a))
             ((if ?sub (label @ t) = None then map FileNode ?run else []) @
              (if subfolders (label @ t) = None \<and> ?sub (label @ t) \<noteq> None
               then [GroupNode (label @ t) t] else []))"
    using walkAll_added[of label ?xs subfolders]
    by (simp only: filter_sort filter_append children_files children_groups)
  have g: "?run \<noteq> [] \<Longrightarrow>
           map_option tg_files (?sub (label @ t)) = (if 2 \<le> length ?run then Some ?run else None) \<and>
           subfolders (label @ t) = None"
  proof -
    assume "?run \<noteq> []"
    then obtain f where "f \<in> set ?xs" "tf_taskSource f = t"
      by (auto simp: filter_empty_conv)
    then have "t \<in> tf_taskSource ` set taskFiles"
      unfolding sortedTaskFiles_sources[of ck taskFiles, symmetric] by blast
    with fresh have n: "subfolders (label @ t) = None" by auto
    from walkAll_groups[where sub = subfolders and label = label and t = t,
        OF sortedTaskFiles_sorted inj n] n show ?thesis by simp
  qed
  have two: "2 \<le> length ?run \<Longrightarrow>
             map_option tg_files (?sub (label @ t)) = Some ?run \<and>
             filter (\<lambda>n. nodeSource n = t) ?children = [GroupNode (label @ t) t]"
  proof -
    assume l: "2 \<le> length ?run"
    then have "?run \<noteq> []" by auto
    from g[OF this] l have m: "map_option tg_files (?sub (label @ t)) = Some ?run"
      and n: "subfolders (label @ t) = None" by simp_all
    from m have s: "?sub (label @ t) \<noteq> None" by auto
    have "filter (\<lambda>n. nodeSource n = t) ?children = [GroupNode (label @ t) t]"
      unfolding c by (simp add: s n)
    with m show ?thesis by simp
  qed
  have one: "length ?run = 1 \<Longrightarrow>
             ?sub (label @ t) = None \<and>
             filter (\<lambda>n. nodeSource n = t) ?children = map FileNode ?run"
  proof -
    assume l: "length ?run = 1"
    then obtain f where r: "?run = [f]" by (cases ?run) simp_all
    then have "?run \<noteq> []" by simp
    from g[OF this] l have m: "?sub (label @ t) = None" by simp
    have "filter (\<lambda>n. nodeSource n = t) ?children = map FileNode ?run"
      unfolding c by (simp add: m r)
    with m show ?thesis by simp
  qed
  from p two one show ?thesis by blast
qed

text \<open>
  A sample list of tasks: a target of \<open>/ws/build.xml\<close>, a task of
  \<open>/ws/app/build.gradle\<close> and a target of \<open>/ws/sub/Build.xml\<close>, with the task files
  the first loop makes of them.
\<close>

definition antRootTask :: Task where
  "antRootTask = createAntTask sampleHost ''compile'' ''compile'' sampleFolder (fileUri ''/ws/build.xml'')"

definition gradleTask :: Task where
  "gradleTask = createGradleTask sampleHost ''pack'' ''pack'' sampleFolder (fileUri ''/ws/app/build.gradle'')"

definition antSubTask :: Task where
  "antSubTask = createAntTask sampleHost ''dist'' ''dist - Default'' sampleFolder (fileUri ''/ws/sub/Build.xml'')"

definition treeTasks :: "Task list" where
  "treeTasks = [antRootTask, gradleTask, antSubTask]"

definition treeFiles :: "TaskFile list" where
  "treeFiles =
     concat (map (\<lambda>(name, folder). folderFiles (placeTasks sampleHost treeTasks) folder)
                 (bs_folders (placeTasks sampleHost treeTasks)))"

definition antRootFile :: TaskFile where
  "antRootFile =
     \<lparr> tf_id = ''ant:ws/build.xml'', tf_label = ''ant'', tf_path = [], tf_taskSource = ''ant'',
       tf_fileName = ''build.xml'', tf_scripts = [newTaskItem antRootTask] \<rparr>"

definition gradleFile :: TaskFile where
  "gradleFile =
     \<lparr> tf_id = ''gradle:ws/app/build.gradle'', tf_label = ''gradle (app)'', tf_path = ''app/'',
       tf_taskSource = ''gradle'', tf_fileName = ''build.gradle'',
       tf_scripts = [newTaskItem gradleTask] \<rparr>"

definition antSubFile :: TaskFile where
  "antSubFile =
     \<lparr> tf_id = ''ant:ws/sub/Build.xml'', tf_label = ''ant (sub)'', tf_path = ''sub/'',
       tf_taskSource = ''ant'', tf_fileName = ''Build.xml'',
       tf_scripts = [newTaskItem antSubTask] \<rparr>"

lemma treeTasks_fields:
  "task_source antRootTask = ''ant''" "task_source gradleTask = ''gradle''"
  "task_source antSubTask = ''ant''"
  "task_name antRootTask = ''compile''" "task_name gradleTask = ''pack''"
  "task_name antSubTask = ''dist - Default''"
  "task_scope antRootTask = ScopeFolder sampleFolder"
  "task_scope gradleTask = ScopeFolder sampleFolder"
  "task_scope antSubTask = ScopeFolder sampleFolder"
  "def_path (task_definition antRootTask) = Some []"
  "def_path (task_definition gradleTask) = Some ''app/''"
  "def_path (task_definition antSubTask) = Some ''sub/''"
  "def_fileName (task_definition antRootTask) = Some ''build.xml''"
  "def_fileName (task_definition gradleTask) = Some ''build.gradle''"
  "def_fileName (task_definition antSubTask) = Some ''Build.xml''"
  "def_scriptFile (task_definition antRootTask) = False"
  "def_scriptFile (task_definition gradleTask) = False"
  "def_scriptFile (task_definition antSubTask) = False"
  by (simp_all add: antRootTask_def gradleTask_def antSubTask_def createAntTask_def
      createGradleTask_def getRelativePath_def Let_def string_defs sample_defs)

lemma treeFiles_new:
  "(newTaskFile ''ant:ws/build.xml'' (task_definition antRootTask) ''ant'' [])
     \<lparr> tf_scripts := [newTaskItem antRootTask] \<rparr> = antRootFile"
  "(newTaskFile ''gradle:ws/app/build.gradle'' (task_definition gradleTask) ''gradle'' ''app/'')
     \<lparr> tf_scripts := [newTaskItem gradleTask] \<rparr> = gradleFile"
  "(newTaskFile ''ant:ws/sub/Build.xml'' (task_definition antSubTask) ''ant'' ''sub/'')
     \<lparr> tf_scripts := [newTaskItem antSubTask] \<rparr> = antSubFile"
  by (simp_all add: newTaskFile_def getLabel_def getFileNameFromSource_def treeTasks_fields
      antRootFile_def gradleFile_def antSubFile_def Let_def string_defs)

lemma treeFiles_placed:
  "placeTasks sampleHost treeTasks =
     \<lparr> bs_folders = [(''ws'', \<lparr> fe_workspaceFolder = sampleFolder,
                                fe_taskFiles = [''ant:ws/build.xml'', ''gradle:ws/app/build.gradle'',
                                                ''ant:ws/sub/Build.xml''] \<rparr>)],
       bs_files = [(''ant:ws/build.xml'', antRootFile),
                   (''gradle:ws/app/build.gradle'', gradleFile),
                   (''ant:ws/sub/Build.xml'', antSubFile)] \<rparr>"
  by (simp add: placeTasks_def treeTasks_def placeTask_def isInstallTask_name treeTasks_fields
      isWorkspaceFolder_def tscDirectory_def ensureFolder_def addTaskItem_def taskFileId_def
      taskRelativePath_def addTaskFile_def treeFiles_new Let_def sampleHost_def sampleFolder_def
      endsWith_def)

lemma treeFiles_eq: "treeFiles = [antRootFile, gradleFile, antSubFile]"
  by (simp add: treeFiles_def treeFiles_placed folderFiles_def)

lemma treeFiles_sorted:
  "sortedTaskFiles (\<lambda>s. s) treeFiles = [antRootFile, antSubFile, gradleFile]"
  by (simp add: sortedTaskFiles_def treeFiles_eq antRootFile_def gradleFile_def antSubFile_def)

lemma promoteFolder_groups_sample:
  "\<exists>subfolders' children.
     promoteFolder (\<lambda>s. s) ''ws'' treeFiles (\<lambda>key. None) = Inr (subfolders', children) \<and>
     map_option tg_files (subfolders' ''wsant'') = Some [antRootFile, antSubFile] \<and>
     filter (\<lambda>n. nodeSource n = ''ant'') children = [GroupNode ''wsant'' ''ant''] \<and>
     subfolders' ''wsgradle'' = None \<and>
     filter (\<lambda>n. nodeSource n = ''gradle'') children = [FileNode gradleFile]"
proof -
  have fresh: "\<forall>f \<in> set treeFiles. (None :: TaskGroup option) = None"
    by simp
  have scripts: "\<forall>f \<in> set treeFiles. tf_scripts f \<noteq> []"
    by (simp add: treeFiles_eq antRootFile_def gradleFile_def antSubFile_def)
  have coll: "inj_on (\<lambda>s :: string. s) (tf_taskSource ` set treeFiles)"
    by simp
  have ant: "ofSource ''ant'' (sortedTaskFiles (\<lambda>s. s) treeFiles) = [antRootFile, antSubFile]"
    and gradle: "ofSource ''gradle'' (sortedTaskFiles (\<lambda>s. s) treeFiles) = [gradleFile]"
    by (simp_all add: treeFiles_sorted) (simp_all add: antRootFile_def gradleFile_def antSubFile_def)
  note rule = promoteFolder_groups[where label = "''ws''" and subfolders = "\<lambda>key. None"
      and ck = "\<lambda>s :: string. s" and taskFiles = treeFiles, OF fresh scripts coll]
  from rule[where t = "''ant''"]
  obtain s c where p: "promoteFolder (\<lambda>s. s) ''ws'' treeFiles (\<lambda>key. None) = Inr (s, c)"
    and a: "map_option tg_files (s ''wsant'') = Some [antRootFile, antSubFile]"
       "filter (\<lambda>n. nodeSource n = ''ant'') c = [GroupNode ''wsant'' ''ant'']"
    unfolding ant by auto
  from rule[where t = "''gradle''"]
  obtain s' c' where p': "promoteFolder (\<lambda>s. s) ''ws'' treeFiles (\<lambda>key. None) = Inr (s', c')"
    and g: "s' ''wsgradle'' = None"
       "filter (\<lambda>n. nodeSource n = ''gradle'') c' = map FileNode [gradleFile]"
    unfolding gradle by auto
  from p p' have "s' = s" "c' = c" by simp_all
  with p a g show ?thesis by simp
qed

subsection \<open>Grouping in the whole tree\<close>

text \<open>
  What the grouping means for one folder and one type \<open>t\<close>, for the children of the folder and
  the map of the groups of the built tree.
\<close>

definition groupedAs ::
  "(string \<Rightarrow> 'k::linorder) \<Rightarrow> string \<Rightarrow> TaskFile list \<Rightarrow> Subfolders \<Rightarrow> TreeNode list
   \<Rightarrow> string \<Rightarrow> bool" where
  "groupedAs ck label taskFiles subfolders children t =
     ((2 \<le> length (ofSource t (sortedTaskFiles ck taskFiles)) \<longrightarrow>
         map_option tg_files (subfolders (label @ t)) =
           Some (ofSource t (sortedTaskFiles ck taskFiles)) \<and>
         filter (\<lambda>n. nodeSource n = t) children = [GroupNode (label @ t) t]) \<and>
      (length (ofSource t (sortedTaskFiles ck taskFiles)) = 1 \<longrightarrow>
         subfolders (label @ t) = None \<and>
         filter (\<lambda>n. nodeSource n = t) children =
           map FileNode (ofSource t (sortedTaskFiles ck taskFiles))))"

text \<open>The keys under which the walk of a folder looks up and registers groups.\<close>

definition keysOf :: "string \<times> TaskFile list \<Rightarrow> string set" where
  "keysOf folder = (\<lambda>f. fst folder @ tf_taskSource f) ` set (snd folder)"

fun disjointKeys :: "(string \<times> TaskFile list) list \<Rightarrow> bool" where
  "disjointKeys [] = True"
| "disjointKeys (folder # folders) =
     ((\<forall>other \<in> set folders. keysOf folder \<inter> keysOf other = {}) \<and> disjointKeys folders)"

definition treeFolders :: "Host \<Rightarrow> Task list \<Rightarrow> (string \<times> TaskFile list) list" where
  "treeFolders h tasks =
     map (\<lambda>(name, folder). (name, folderFiles (placeTasks h tasks) folder))
         (bs_folders (placeTasks h tasks))"

lemma walk_frame:
  "\<forall>x \<in> set xs. label @ tf_taskSource x \<noteq> key \<Longrightarrow>
   fst (walk label p xs sub added) key = sub key"
  by (induction xs arbitrary: p sub added) (auto split: option.splits)

lemma walkAll_frame:
  "\<forall>x \<in> set xs. label @ tf_taskSource x \<noteq> key \<Longrightarrow> fst (walkAll label xs sub) key = sub key"
  by (cases xs) (simp_all add: walkAll_def walk_frame)

lemma promoteFolder_frame:
  assumes "promoteFolder ck label taskFiles sub = Inr (sub', children)"
    and "\<forall>f \<in> set taskFiles. tf_scripts f \<noteq> []"
    and "key \<notin> keysOf (label, taskFiles)"
  shows "sub' key = sub key"
proof -
  let ?xs = "sortedTaskFiles ck taskFiles"
  from promoteFolder_walkAll[OF sortedTaskFiles_scripts[OF assms(2)], of ck label sub] assms(1)
  have s: "sub' = fst (walkAll label ?xs sub)" by simp
  have "\<forall>x \<in> set ?xs. label @ tf_taskSource x \<noteq> key"
  proof
    fix x assume "x \<in> set ?xs"
    then have "tf_taskSource x \<in> tf_taskSource ` set taskFiles"
      unfolding sortedTaskFiles_sources[of ck taskFiles, symmetric] by blast
    then have "label @ tf_taskSource x \<in> keysOf (label, taskFiles)"
      by (auto simp: keysOf_def)
    with assms(3) show "label @ tf_taskSource x \<noteq> key" by auto
  qed
  then show ?thesis unfolding s by (rule walkAll_frame)
qed

lemma promoteFolder_groupedAs:
  fixes ck :: "string \<Rightarrow> 'k::linorder"
  assumes "promoteFolder ck label taskFiles sub = Inr (sub', children)"
    and "\<forall>f \<in> set taskFiles. sub (label @ tf_taskSource f) = None"
    and "\<forall>f \<in> set taskFiles. tf_scripts f \<noteq> []"
    and "inj_on ck (tf_taskSource ` set taskFiles)"
  shows "groupedAs ck label taskFiles sub' children t"
  using promoteFolder_groups[OF assms(2,3,4), of t] assms(1)
  by (auto simp: groupedAs_def)

lemma promoteFolder_total:
  assumes "\<forall>f \<in> set taskFiles. tf_scripts f \<noteq> []"
  shows "\<exists>sub' children. promoteFolder ck label taskFiles sub = Inr (sub', children)"
  using promoteFolder_walkAll[OF sortedTaskFiles_scripts[OF assms], of ck label sub] by blast

lemma ofSource_key:
  assumes "ofSource t (sortedTaskFiles ck taskFiles) \<noteq> []"
  shows "label @ t \<in> keysOf (label, taskFiles)"
proof -
  from assms obtain f where "f \<in> set (sortedTaskFiles ck taskFiles)" "tf_taskSource f = t"
    by (auto simp: filter_empty_conv)
  then have "t \<in> tf_taskSource ` set taskFiles"
    unfolding sortedTaskFiles_sources[of ck taskFiles, symmetric] by blast
  then show ?thesis by (auto simp: keysOf_def)
qed

lemma groupedAs_frame:
  assumes "groupedAs ck label taskFiles sub children t"
    and "label @ t \<in> keysOf (label, taskFiles) \<Longrightarrow> sub' (label @ t) = sub (label @ t)"
  shows "groupedAs ck label taskFiles sub' children t"
proof (cases "ofSource t (sortedTaskFiles ck taskFiles) = []")
  case True
  then show ?thesis by (simp add: groupedAs_def)
next
  case False
  from assms(2)[OF ofSource_key[OF False]] assms(1) show ?thesis
    by (simp add: groupedAs_def)
qed

lemma promoteFolders_frame:
  assumes "promoteFolders ck folders sub = Inr (sub', tree)"
    and "\<forall>folder \<in> set folders. \<forall>f \<in> set (snd folder). tf_scripts f \<noteq> []"
    and "\<forall>folder \<in> set folders. key \<notin> keysOf folder"
  shows "sub' key = sub key"
  using assms
proof (induction folders arbitrary: sub tree)
  case Nil
  then show ?case by simp
next
  case (Cons folder folders)
  obtain label taskFiles where fo: "folder = (label, taskFiles)" by (cases folder)
  from Cons.prems(2) fo have sc: "\<forall>f \<in> set taskFiles. tf_scripts f \<noteq> []" by auto
  from promoteFolder_total[OF sc, of ck label sub] obtain sub1 children where
    p: "promoteFolder ck label taskFiles sub = Inr (sub1, children)" by blast
  from Cons.prems(1) p fo obtain tree' where
    r: "promoteFolders ck folders sub1 = Inr (sub', tree')"
    by (auto split: sum.splits)
  have "sub' key = sub1 key"
    using r Cons.prems(2,3) by (intro Cons.IH) auto
  moreover have "sub1 key = sub key"
    using p sc Cons.prems(3) fo by (intro promoteFolder_frame) auto
  ultimately show ?case by simp
qed

lemma promoteFolders_groups:
  fixes ck :: "string \<Rightarrow> 'k::linorder"
  assumes "\<forall>folder \<in> set folders. \<forall>f \<in> set (snd folder). tf_scripts f \<noteq> []"
    and "\<forall>folder \<in> set folders. inj_on ck (tf_taskSource ` set (snd folder))"
    and "\<forall>folder \<in> set folders. \<forall>key \<in> keysOf folder. sub key = None"
    and "disjointKeys folders"
  shows "\<exists>sub' tree.
           promoteFolders ck folders sub = Inr (sub', tree) \<and>
           list_all2 (\<lambda>folder node. fst node = fst folder \<and>
                        (\<forall>t. groupedAs ck (fst folder) (snd folder) sub' (snd node) t))
             folders tree"
  using assms
proof (induction folders arbitrary: sub)
  case Nil
  show ?case by simp
next
  case (Cons folder folders)
  obtain label taskFiles where fo: "folder = (label, taskFiles)" by (cases folder)
  from Cons.prems(1) fo have sc: "\<forall>f \<in> set taskFiles. tf_scripts f \<noteq> []" by auto
  from Cons.prems(2) fo have inj: "inj_on ck (tf_taskSource ` set taskFiles)" by auto
  from Cons.prems(3) fo have fresh: "\<forall>f \<in> set taskFiles. sub (label @ tf_taskSource f) = None"
    by (auto simp: keysOf_def)
  from promoteFolder_total[OF sc, of ck label sub] obtain sub1 children where
    p: "promoteFolder ck label taskFiles sub = Inr (sub1, children)" by blast
  have g1: "\<And>t. groupedAs ck label taskFiles sub1 children t"
    using p fresh sc inj by (rule promoteFolder_groupedAs)
  have rest_scripts: "\<forall>folder \<in> set folders. \<forall>f \<in> set (snd folder). tf_scripts f \<noteq> []"
    using Cons.prems(1) by simp
  have rest_inj: "\<forall>folder \<in> set folders. inj_on ck (tf_taskSource ` set (snd folder))"
    using Cons.prems(2) by simp
  have disj: "\<forall>other \<in> set folders. keysOf (label, taskFiles) \<inter> keysOf other = {}"
    using Cons.prems(4) fo by simp
  have rest_fresh: "\<forall>other \<in> set folders. \<forall>key \<in> keysOf other. sub1 key = None"
  proof (intro ballI)
    fix other key assume o: "other \<in> set folders" and k: "key \<in> keysOf other"
    with disj have "key \<notin> keysOf (label, taskFiles)" by blast
    with p sc have "sub1 key = sub key" by (rule promoteFolder_frame)
    moreover from Cons.prems(3) o k have "sub key = None" by simp
    ultimately show "sub1 key = None" by simp
  qed
  have rest_disj: "disjointKeys folders" using Cons.prems(4) by simp
  from Cons.IH[OF rest_scripts rest_inj rest_fresh rest_disj] obtain sub' tree where
    r: "promoteFolders ck folders sub1 = Inr (sub', tree)" and
    l: "list_all2 (\<lambda>folder node. fst node = fst folder \<and>
                     (\<forall>t. groupedAs ck (fst folder) (snd folder) sub' (snd node) t))
          folders tree"
    by blast
  have w: "promoteFolders ck (folder # folders) sub = Inr (sub', (label, children) # tree)"
    using p r fo by simp
  have g: "\<forall>t. groupedAs ck label taskFiles sub' children t"
  proof
    fix t
    have "label @ t \<in> keysOf (label, taskFiles) \<Longrightarrow> sub' (label @ t) = sub1 (label @ t)"
    proof -
      assume "label @ t \<in> keysOf (label, taskFiles)"
      with disj have "\<forall>other \<in> set folders. label @ t \<notin> keysOf other" by blast
      with r rest_scripts show "sub' (label @ t) = sub1 (label @ t)"
        by (rule promoteFolders_frame)
    qed
    with g1[of t] show "groupedAs ck label taskFiles sub' children t"
      by (rule groupedAs_frame)
  qed
  have "list_all2 (\<lambda>folder node. fst node = fst folder \<and>
                     (\<forall>t. groupedAs ck (fst folder) (snd folder) sub' (snd node) t))
          (folder # folders) ((label, children) # tree)"
    using l g fo by simp
  with w show ?case by blast
qed

lemma treeFolders_scripts:
  "\<forall>folder \<in> set (treeFolders h tasks). \<forall>f \<in> set (snd folder). tf_scripts f \<noteq> []"
  using folderFiles_scripts[of h tasks] by (auto simp: treeFolders_def)

text \<open>
  The grouping holds in the built tree for every folder and every type whenever the folders do not share a key and the collation tells the types of a
  folder apart.
\<close>

lemma buildTaskTree_groups:
  fixes ck :: "string \<Rightarrow> 'k::linorder"
  assumes "\<forall>folder \<in> set (treeFolders h tasks). inj_on ck (tf_taskSource ` set (snd folder))"
    and "disjointKeys (treeFolders h tasks)"
  shows "\<exists>subfolders tree.
           buildTaskTree h ck tasks = Inr (subfolders, tree) \<and>
           list_all2 (\<lambda>folder node. fst node = fst folder \<and>
                        (\<forall>t. groupedAs ck (fst folder) (snd folder) subfolders (snd node) t))
             (treeFolders h tasks) tree"
proof -
  have b: "buildTaskTree h ck tasks = promoteFolders ck (treeFolders h tasks) (\<lambda>key. None)"
    by (simp add: buildTaskTree_def treeFolders_def Let_def)
  have fresh: "\<forall>folder \<in> set (treeFolders h tasks). \<forall>key \<in> keysOf folder.
                 (\<lambda>key. None :: TaskGroup option) key = None"
    by simp
  show ?thesis
    unfolding b
    using treeFolders_scripts assms(1) fresh assms(2) by (rule promoteFolders_groups)
qed


















end
